theory Spec2Isabelle
  imports Complex_Main "HOL-Library.AList"
begin

section \<open>JSON values\<close>

text \<open>
  The type \<open>Json\<close> of engine-client.ts: objects keep their entries in insertion order,
  as \<open>Object.entries\<close> lists them.
\<close>

datatype json =
    JNull
  | JBool bool
  | JNum rat
  | JStr string
  | JArr "json list"
  | JObj "(string \<times> json) list"

section \<open>Endpoint metadata (openapi)\<close>

text \<open>
  \<open>QueryParameter\<close> and \<open>EndpointMetadata\<close> as the engine sends them. The registrar
  tests \<open>param.schema\<close> and \<open>endpoint.description\<close> for truthiness, so both may be absent.
\<close>

record param_spec =
  schema :: "json option"
  optional :: bool
  param_description :: string

record endpoint =
  path :: string
  requestMethod :: string
  description :: "string option"
  params :: "(string \<times> param_spec) list"

section \<open>Engine client facade (engine-client.ts)\<close>

subsection \<open>Errors\<close>

text \<open>
  What the generated HTTP client rejects with: an \<open>AxiosError\<close>, of which \<open>handleError\<close>
  reads \<open>config?.method\<close>, \<open>config?.url\<close>, \<open>response?.status\<close>, \<open>response?.headers\<close> and
  \<open>response?.data\<close>, or any other thrown value. An absent (\<open>undefined\<close>) field is \<open>None\<close>;
  a body that is JSON \<open>null\<close> is \<open>Some JNull\<close>.
\<close>

record axios_config =
  config_method :: "string option"
  config_url :: "string option"

record axios_response =
  response_status :: int
  response_headers :: "(string \<times> string) list"
  response_data :: "json option"

record axios_error =
  config :: "axios_config option"
  response :: "axios_response option"

datatype 'x rejection = AxiosError axios_error | NotAxios 'x

text \<open>
  \<open>class EngineCallError extends Error\<close>: the constructor puts method and URL into the
  message and stores status, headers and error.
\<close>

record engine_call_error =
  ece_message :: string
  ece_name :: string
  ece_status :: "int option"
  ece_headers :: "(string \<times> string) list option"
  ece_error :: json

definition EngineCallError ::
  "string \<Rightarrow> string \<Rightarrow> int option \<Rightarrow> (string \<times> string) list option \<Rightarrow> json \<Rightarrow> engine_call_error"
where
  "EngineCallError method url status headers error =
     \<lparr> ece_message = ''Error calling '' @ method @ '' '' @ url,
       ece_name = ''EngineCallError'',
       ece_status = status,
       ece_headers = headers,
       ece_error = error \<rparr>"

datatype 'x facade_error = Engine engine_call_error | Propagated 'x

text \<open>The operator \<open>a ?? b\<close>: \<open>b\<close> when \<open>a\<close> is \<open>undefined\<close> or \<open>null\<close>.\<close>

definition nullish_data :: "json option \<Rightarrow> json \<Rightarrow> json" where
  "nullish_data a b = (case a of None \<Rightarrow> b | Some JNull \<Rightarrow> b | Some v \<Rightarrow> v)"

text \<open>\<open>handleError\<close> never returns: its value here is what it throws.\<close>

definition handleError :: "'x rejection \<Rightarrow> 'x facade_error" where
  "handleError error =
     (case error of
        AxiosError e \<Rightarrow>
          Engine (EngineCallError
            (case Option.bind (config e) config_method of Some m \<Rightarrow> m | None \<Rightarrow> ''unknown'')
            (case Option.bind (config e) config_url of Some u \<Rightarrow> u | None \<Rightarrow> ''unknown'')
            (map_option response_status (response e))
            (map_option response_headers (response e))
            (nullish_data (Option.bind (response e) response_data) (JObj [])))
      | NotAxios x \<Rightarrow> Propagated x)"

text \<open>
  \<open>.then((res) => res.data).catch(handleError)\<close> on a call of the generated client: the
  call's outcome is the response data or the rejection.
\<close>

definition settle :: "'x rejection + 'a \<Rightarrow> 'x facade_error + 'a" where
  "settle outcome = (case outcome of Inl error \<Rightarrow> Inl (handleError error) | Inr d \<Rightarrow> Inr d)"

subsection \<open>executeRequest\<close>

text \<open>
  A parameter value is \<open>string | number | boolean\<close>. The number type and the text that
  \<open>String\<close> gives a number belong to the JavaScript engine: they are the type \<open>'n\<close> and the
  function \<open>numberToString\<close>.
\<close>

datatype 'n pvalue = PString string | PNumber 'n | PBoolean bool

fun js_String :: "('n \<Rightarrow> string) \<Rightarrow> 'n pvalue \<Rightarrow> string" where
  "js_String numberToString (PString s) = s"
| "js_String numberToString (PNumber n) = numberToString n"
| "js_String numberToString (PBoolean b) = (if b then ''true'' else ''false'')"

record 'n request =
  req_path :: string
  req_requestMethod :: string
  req_parameters :: "(string \<times> 'n pvalue) list"

text \<open>
  The generated client (\<open>DefaultApiFactory\<close>), one outcome per operation and arguments.
\<close>

record ('n, 'x) raw_client =
  executeEndpointOnGet :: "string \<Rightarrow> (string \<times> string) list \<Rightarrow> 'x rejection + json"
  executeEndpointOnPost :: "string \<Rightarrow> (string \<times> 'n pvalue) list \<Rightarrow> 'x rejection + json"
  raw_getEndpoints :: "'x rejection + endpoint list"
  raw_getStatus :: "'x rejection + json"
  raw_getTargetDbStatus :: "string \<Rightarrow> 'x rejection + json"
  raw_executeReadonlyQuery :: "string \<Rightarrow> string \<Rightarrow> 'x rejection + json"
  raw_executeReadWriteQuery :: "string \<Rightarrow> string \<Rightarrow> 'x rejection + json"
  raw_getSchema :: "string \<Rightarrow> 'x rejection + json"
  raw_getTargets :: "'x rejection + json"

text \<open>
  \<open>parameters[key] = v\<close> for a string \<open>v\<close> on an object that began as \<open>{}\<close>: the value of a
  key that is there is replaced, a new key is appended. The key \<open>__proto__\<close> is not an
  entry but the setter of the prototype, which ignores a string.
\<close>

definition assign :: "string \<Rightarrow> string \<Rightarrow> (string \<times> string) list \<Rightarrow> (string \<times> string) list" where
  "assign key v obj = (if key = ''__proto__'' then obj else AList.update key v obj)"

text \<open>
  The loop \<open>for (const [key, value] of Object.entries(args.parameters)) parameters[key] =
  String(value)\<close>, from the empty object.
\<close>

definition stringifyParameters ::
  "('n \<Rightarrow> string) \<Rightarrow> (string \<times> 'n pvalue) list \<Rightarrow> (string \<times> string) list"
where
  "stringifyParameters numberToString entries =
     foldl (\<lambda>parameters (key, v). assign key (js_String numberToString v) parameters)
       [] entries"

definition executeRequest ::
  "('n \<Rightarrow> string) \<Rightarrow> ('n, 'x) raw_client \<Rightarrow> 'n request \<Rightarrow> 'x facade_error + json"
where
  "executeRequest numberToString base args =
     (if req_requestMethod args = ''GET''
      then settle (executeEndpointOnGet base (req_path args)
             (stringifyParameters numberToString (req_parameters args)))
      else settle (executeEndpointOnPost base (req_path args) (req_parameters args)))"

text \<open>
  The type \<open>EngineClient\<close>; \<open>getEndpoints\<close> gives the \<open>data\<close> array of the response.
\<close>

record ('n, 'e) engine_client =
  ec_executeRequest :: "'n request \<Rightarrow> 'e + json"
  ec_getEndpoints :: "'e + endpoint list"
  ec_getStatus :: "'e + json"
  ec_getTargetDbStatus :: "string \<Rightarrow> 'e + json"
  ec_executeReadonlyQuery :: "string \<Rightarrow> string \<Rightarrow> 'e + json"
  ec_executeReadWriteQuery :: "string \<Rightarrow> string \<Rightarrow> 'e + json"
  ec_getSchema :: "string \<Rightarrow> 'e + json"
  ec_getTargets :: "'e + json"

definition createEngineClient ::
  "('n \<Rightarrow> string) \<Rightarrow> ('n, 'x) raw_client \<Rightarrow> ('n, 'x facade_error) engine_client"
where
  "createEngineClient numberToString base =
     \<lparr> ec_executeRequest = executeRequest numberToString base,
       ec_getEndpoints = settle (raw_getEndpoints base),
       ec_getStatus = settle (raw_getStatus base),
       ec_getTargetDbStatus = (\<lambda>args. settle (raw_getTargetDbStatus base args)),
       ec_executeReadonlyQuery = (\<lambda>args body. settle (raw_executeReadonlyQuery base args body)),
       ec_executeReadWriteQuery = (\<lambda>args body. settle (raw_executeReadWriteQuery base args body)),
       ec_getSchema = (\<lambda>args. settle (raw_getSchema base args)),
       ec_getTargets = settle (raw_getTargets base) \<rparr>"

text \<open>\<open>testEngineClient\<close>, the mock of test mode: numbers are JSON numbers.\<close>

fun json_of_pvalue :: "rat pvalue \<Rightarrow> json" where
  "json_of_pvalue (PString s) = JStr s"
| "json_of_pvalue (PNumber n) = JNum n"
| "json_of_pvalue (PBoolean b) = JBool b"

definition testEngineClient :: "(rat, 'e) engine_client" where
  "testEngineClient =
     \<lparr> ec_executeRequest = (\<lambda>args. Inr (JObj [(''args'', JObj
           [(''path'', JStr (req_path args)),
            (''requestMethod'', JStr (req_requestMethod args)),
            (''parameters'', JObj (map (\<lambda>(k, v). (k, json_of_pvalue v)) (req_parameters args)))])])),
       ec_getEndpoints = Inr
         [\<lparr> path = ''test'', requestMethod = ''GET'', description = Some ''Test endpoint'',
            params = [] \<rparr>],
       ec_getStatus = Inr (JObj [(''ok'', JBool True)]),
       ec_getTargetDbStatus = (\<lambda>targetSlug. Inr (JObj [(''ok'', JBool (targetSlug \<noteq> ''test-db-down''))])),
       ec_executeReadonlyQuery = (\<lambda>target query. Inr (JObj [(''target'', JStr target), (''query'', JStr query)])),
       ec_executeReadWriteQuery = (\<lambda>target query. Inr (JObj [(''target'', JStr target), (''query'', JStr query)])),
       ec_getSchema = (\<lambda>target. Inr (JObj [(''target'', JStr target),
           (''schema'', JObj [(''columns'', JArr [JObj [(''name'', JStr ''i''), (''type'', JStr ''UInt64'')]])])])),
       ec_getTargets = Inr (JObj [(''data'', JArr
           [JObj [(''slug'', JStr ''test-clickhouse''), (''description'', JStr ''Test ClickHouse database''),
                  (''engineType'', JStr ''clickhouse'')],
            JObj [(''slug'', JStr ''test-postgres''), (''description'', JStr ''Test Postgres database''),
                  (''engineType'', JStr ''postgres'')],
            JObj [(''slug'', JStr ''test-db-down''), (''description'', JStr ''Test database that is down''),
                  (''engineType'', JStr ''postgres'')]])]) \<rparr>"

section \<open>MCP server (mcp.ts)\<close>

subsection \<open>Zod schemas and thrown values\<close>

text \<open>
  A Zod schema as the term that builds it: the builders of \<open>z\<close> that mcp.ts calls
  (\<open>z.string()\<close>, \<open>z.number()\<close>, \<open>z.boolean()\<close>, \<open>z.union\<close>, \<open>z.record\<close>, \<open>.optional()\<close>,
  \<open>.describe()\<close>) and those in the code that json-schema-to-zod generates for the schema
  shapes string, number, boolean, array, object and enum. \<open>ZObject\<close> carries the declared
  shape and what \<open>z.object\<close> does with undeclared keys (\<open>.strict()\<close> rejects them);
  \<open>ZCatchall\<close> is \<open>z.object(shape).catchall(schema)\<close>; \<open>ZRecord ZString v\<close> is also the
  one-argument \<open>z.record(v)\<close>.
\<close>

datatype unknown_keys = Strip | Strict

datatype zod =
    ZString
  | ZNumber
  | ZBoolean
  | ZAny
  | ZNever
  | ZLiteral json
  | ZEnum "string list"
  | ZArray zod
  | ZRecord zod zod
  | ZUnion "zod list"
  | ZObject "(string \<times> zod) list" unknown_keys
  | ZCatchall "(string \<times> zod) list" zod
  | ZOptional zod
  | ZDescribe zod string

text \<open>
  An error message: its text, followed by \<open>JSON.stringify(v, null, 2)\<close> of a value where the
  template has one.
\<close>

datatype message = Message string "json option"

text \<open>
  An \<open>Error\<close> object made by mcp.ts or by \<open>McpServer\<close>, with the properties mcp.ts sets on
  it, or a value thrown by something else (json-schema-to-zod, the evaluation of the
  generated code, the engine client), which propagates as it is.
\<close>

record 'x error_obj =
  error_name :: string
  error_message :: message
  error_cause :: "'x option"
  sourceSchema :: "json option"

datatype 'x thrown = Raised 'x | Err "'x error_obj"

definition new_Error :: "message \<Rightarrow> 'x error_obj" where
  "new_Error msg =
     \<lparr> error_name = ''Error'', error_message = msg, error_cause = None, sourceSchema = None \<rparr>"

text \<open>
  What mcp.ts takes from its imports and from the JavaScript engine:
  \<open>jsonSchemaToZod(jsonSchema, {module: "none", noImport: true, type: false})\<close>, which gives
  JavaScript code or throws; \<open>new Function("z", functionString)(z)\<close>, which gives the value of
  that code or throws.
\<close>

record 'x runtime =
  jsonSchemaToZod :: "json \<Rightarrow> 'x + string"
  newFunction :: "string \<Rightarrow> 'x + zod"

subsection \<open>getZodSchemaFromJsonSchema\<close>

definition tsAnnotation :: string where
  "tsAnnotation = ''<z.ZodError[]>''"

text \<open>
  \<open>s.replace(regex, replacement)\<close> for a regex without flags that matches one literal
  text: the leftmost occurrence is replaced.
\<close>

fun replace_first :: "string \<Rightarrow> string \<Rightarrow> string \<Rightarrow> string" where
  "replace_first pat rep [] = (if pat = [] then rep else [])"
| "replace_first pat rep (c # cs) =
     (if take (length pat) (c # cs) = pat then rep @ drop (length pat) (c # cs)
      else c # replace_first pat rep cs)"

definition getZodSchemaFromJsonSchema :: "'x runtime \<Rightarrow> json \<Rightarrow> 'x thrown + zod" where
  "getZodSchemaFromJsonSchema rt jsonSchema =
     (case jsonSchemaToZod rt jsonSchema of
        Inl cause \<Rightarrow>
          Inl (Err ((new_Error
                 (Message ''Failed to convert JSON schema to Zod schema: '' (Some jsonSchema)))
               \<lparr> error_cause := Some cause,
                 error_name := ''ZodSchemaConversionError'',
                 sourceSchema := Some jsonSchema \<rparr>))
      | Inr zodSchemaString \<Rightarrow>
          (case newFunction rt (''return '' @ replace_first tsAnnotation [] zodSchemaString @ '';'') of
             Inl e \<Rightarrow> Inl (Raised e)
           | Inr zodSchema \<Rightarrow> Inr zodSchema))"

subsection \<open>The tool registry of McpServer\<close>

text \<open>
  The handler passed to \<open>server.tool\<close>, by the engine operation it calls; \<open>DefinedQuery\<close>
  holds the endpoint's path and request method, which the closure captures.
\<close>

datatype callback =
    ListDatabases
  | GetDatabaseStatus
  | GetStatus
  | GetDatabaseSchema
  | RawReadonlyQuery
  | RawQuery
  | GetEndpoints
  | CallEndpoint
  | DefinedQuery string string

record tool =
  tool_name :: string
  tool_description :: string
  tool_schema :: "(string \<times> zod) list option"
  tool_callback :: callback

text \<open>
  Modelled from the spec: \<open>McpServer\<close> belongs to the dependency @modelcontextprotocol/sdk,
  whose code is not in the repository. The spec describes the registry as the ordered
  list of the registered tools, with a check for a name that is already there before a
  tool is entered and the collision surfaced as an error; \<open>McpServer.tool\<close> makes that
  check and throws \<open>new Error(`Tool ${name} is already registered`)\<close>. The server is the
  list of its tools in the order of registration.
\<close>

type_synonym mcp_server = "tool list"

definition server_tool :: "tool \<Rightarrow> mcp_server \<Rightarrow> 'x thrown + mcp_server" where
  "server_tool t server =
     (if tool_name t \<in> set (map tool_name server)
      then Inl (Err (new_Error (Message (''Tool '' @ tool_name t @ '' is already registered'') None)))
      else Inr (server @ [t]))"

subsection \<open>addEndpoints\<close>

text \<open>
  JavaScript truthiness of a JSON value; an optional string is truthy when it is there and
  not empty.
\<close>

fun truthy :: "json \<Rightarrow> bool" where
  "truthy JNull = False"
| "truthy (JBool b) = b"
| "truthy (JNum n) = (n \<noteq> 0)"
| "truthy (JStr s) = (s \<noteq> [])"
| "truthy (JArr xs) = True"
| "truthy (JObj kvs) = True"

text \<open>\<open>${toolPrefix ? `${toolPrefix}_` : ""}\<close> in front of a tool name.\<close>

definition prefixed :: "string option \<Rightarrow> string \<Rightarrow> string" where
  "prefixed toolPrefix n =
     (case toolPrefix of
        None \<Rightarrow> n
      | Some p \<Rightarrow> if p \<noteq> [] then p @ ''_'' @ n else n)"

text \<open>\<open>disableTools?.includes(n)\<close>: \<open>undefined\<close>, which is falsy, without a list.\<close>

definition js_includes :: "string list option \<Rightarrow> string \<Rightarrow> bool" where
  "js_includes disableTools n = (case disableTools of None \<Rightarrow> False | Some l \<Rightarrow> n \<in> set l)"

text \<open>
  The callback of \<open>Object.entries(endpoint.params).map(...)\<close> for one parameter, and the
  \<open>map\<close> itself, which stops at the first throw.
\<close>

definition parameterEntry ::
  "'x runtime \<Rightarrow> endpoint \<Rightarrow> string \<times> param_spec \<Rightarrow> 'x thrown + (string \<times> zod)"
where
  "parameterEntry rt ep = (\<lambda>(name, param).
     (case (case schema param of None \<Rightarrow> None | Some js \<Rightarrow> if truthy js then Some js else None) of
        None \<Rightarrow>
          Inl (Err (new_Error
            (Message (''No schema found for parameter '' @ name @ '' in endpoint '' @ path ep) None)))
      | Some js \<Rightarrow>
          (case getZodSchemaFromJsonSchema rt js of
             Inl e \<Rightarrow> Inl e
           | Inr compiled \<Rightarrow>
               Inr (name,
                 ZDescribe (if optional param then ZOptional compiled else compiled)
                   (param_description param)))))"

fun map_throwing :: "('a \<Rightarrow> 'e + 'b) \<Rightarrow> 'a list \<Rightarrow> 'e + 'b list" where
  "map_throwing f [] = Inr []"
| "map_throwing f (x # xs) =
     (case f x of
        Inl e \<Rightarrow> Inl e
      | Inr y \<Rightarrow> (case map_throwing f xs of Inl e \<Rightarrow> Inl e | Inr ys \<Rightarrow> Inr (y # ys)))"

definition parameterEntries :: "'x runtime \<Rightarrow> endpoint \<Rightarrow> 'x thrown + (string \<times> zod) list" where
  "parameterEntries rt ep = map_throwing (parameterEntry rt ep) (params ep)"

definition endpoint_tool :: "string option \<Rightarrow> endpoint \<Rightarrow> (string \<times> zod) list \<Rightarrow> tool" where
  "endpoint_tool toolPrefix ep entries =
     \<lparr> tool_name = prefixed toolPrefix (''query_'' @ path ep),
       tool_description =
         ''Defined Query'' @
           (case description ep of
              None \<Rightarrow> []
            | Some d \<Rightarrow> if d \<noteq> [] then '': '' @ d else []),
       tool_schema = Some entries,
       tool_callback = DefinedQuery (path ep) (requestMethod ep) \<rparr>"

text \<open>
  The loop of \<open>addEndpoints\<close> over the endpoints; the engine is used by the handlers only.
\<close>

fun addEndpoints ::
  "'x runtime \<Rightarrow> mcp_server \<Rightarrow> endpoint list \<Rightarrow> string option \<Rightarrow> string list option
     \<Rightarrow> 'x thrown + mcp_server"
where
  "addEndpoints rt server [] toolPrefix disableTools = Inr server"
| "addEndpoints rt server (ep # endpoints) toolPrefix disableTools =
     (case parameterEntries rt ep of
        Inl e \<Rightarrow> Inl e
      | Inr entries \<Rightarrow>
          if \<not> js_includes disableTools (''query_'' @ path ep)
          then (case server_tool (endpoint_tool toolPrefix ep entries) server of
                  Inl e \<Rightarrow> Inl e
                | Inr server' \<Rightarrow> addEndpoints rt server' endpoints toolPrefix disableTools)
          else addEndpoints rt server endpoints toolPrefix disableTools)"

subsection \<open>startMcpServer\<close>

record mcp_options =
  opt_name :: string
  opt_toolPrefix :: "string option"
  opt_dynamicEndpointTools :: bool
  opt_disableTools :: "string list option"

text \<open>
  The six built-in tools in the order of their \<open>if (!disableTools?.includes(...))\<close> blocks:
  the name tested against the disable-list, and the arguments of \<open>server.tool\<close> but for the
  prefix of the name.
\<close>

definition builtin_tools :: "tool list" where
  "builtin_tools =
     [\<lparr> tool_name = ''system_list_databases'',
        tool_description = ''List all the available databases'',
        tool_schema = None,
        tool_callback = ListDatabases \<rparr>,
      \<lparr> tool_name = ''system_get_database_status'',
        tool_description = ''Get the status of a given database'',
        tool_schema = Some [(''target'', ZString)],
        tool_callback = GetDatabaseStatus \<rparr>,
      \<lparr> tool_name = ''system_get_status'',
        tool_description = ''Check if all databases are running'',
        tool_schema = Some [],
        tool_callback = GetStatus \<rparr>,
      \<lparr> tool_name = ''system_get_database_schema'',
        tool_description = ''Get the schema for a given database'',
        tool_schema = Some [(''target'', ZString)],
        tool_callback = GetDatabaseSchema \<rparr>,
      \<lparr> tool_name = ''raw_readonly_query'',
        tool_description = ''Execute a raw query against a database with readonly access. Can only be called if the database allows raw readonly queries.'',
        tool_schema = Some [(''target'', ZDescribe ZString ''The database to query''),
                            (''query'', ZDescribe ZString ''The query to execute'')],
        tool_callback = RawReadonlyQuery \<rparr>,
      \<lparr> tool_name = ''raw_query'',
        tool_description = ''Execute a raw query against a database with read/write access. Can only be called if the database allows raw read/write queries.'',
        tool_schema = Some [(''target'', ZDescribe ZString ''The database to query''),
                            (''query'', ZDescribe ZString ''The query to execute'')],
        tool_callback = RawQuery \<rparr>]"

fun registerBuiltins ::
  "tool list \<Rightarrow> string option \<Rightarrow> string list option \<Rightarrow> mcp_server \<Rightarrow> 'x thrown + mcp_server"
where
  "registerBuiltins [] toolPrefix disableTools server = Inr server"
| "registerBuiltins (t # ts) toolPrefix disableTools server =
     (if \<not> js_includes disableTools (tool_name t)
      then (case server_tool (t\<lparr> tool_name := prefixed toolPrefix (tool_name t) \<rparr>) server of
              Inl e \<Rightarrow> Inl e
            | Inr server' \<Rightarrow> registerBuiltins ts toolPrefix disableTools server')
      else registerBuiltins ts toolPrefix disableTools server)"

definition system_get_endpoints :: "string option \<Rightarrow> tool" where
  "system_get_endpoints toolPrefix =
     \<lparr> tool_name = prefixed toolPrefix ''system_get_endpoints'',
       tool_description = ''Get all available endpoints for stored queries and workflows'',
       tool_schema = Some [],
       tool_callback = GetEndpoints \<rparr>"

definition call_endpoint :: "string option \<Rightarrow> tool" where
  "call_endpoint toolPrefix =
     \<lparr> tool_name = prefixed toolPrefix ''call_endpoint'',
       tool_description = ''Call a given stored query/playbook endpoint with the provided parameters'',
       tool_schema = Some
         [(''path'', ZString),
          (''requestMethod'', ZString),
          (''parameters'', ZRecord ZString (ZUnion [ZString, ZNumber, ZBoolean]))],
       tool_callback = CallEndpoint \<rparr>"

text \<open>
  \<open>startMcpServer\<close> up to the choice of the transport, on the engine client it has chosen:
  the server is new, so the registry starts empty. The result is the number of calls of
  \<open>engine.getEndpoints()\<close> made and the registry, or what was thrown.
\<close>

definition startMcpServer ::
  "'x runtime \<Rightarrow> ('n, 'x) engine_client \<Rightarrow> mcp_options \<Rightarrow> nat \<times> ('x thrown + mcp_server)"
where
  "startMcpServer rt engine opts =
     (case registerBuiltins builtin_tools (opt_toolPrefix opts) (opt_disableTools opts) [] of
        Inl e \<Rightarrow> (0, Inl e)
      | Inr server \<Rightarrow>
          if opt_dynamicEndpointTools opts
          then (0,
            case server_tool (system_get_endpoints (opt_toolPrefix opts)) server of
              Inl e \<Rightarrow> Inl e
            | Inr server' \<Rightarrow> server_tool (call_endpoint (opt_toolPrefix opts)) server')
          else (1,
            case ec_getEndpoints engine of
              Inl e \<Rightarrow> Inl (Raised e)
            | Inr endpoints \<Rightarrow>
                addEndpoints rt server endpoints (opt_toolPrefix opts) (opt_disableTools opts)))"

text \<open>
  What a handler does when the tool is called with arguments the tool's schema admits: the
  one engine operation it awaits. The handler returns its result as
  \<open>{content: [{type: "text", mimeType: "application/json", text: JSON.stringify(result)}]}\<close>,
  which is the payload here; a rejection of the engine propagates.
\<close>

datatype 'n tool_args =
    NoArgs
  | TargetArgs string
  | QueryArgs string string
  | EndpointArgs string string "(string \<times> 'n pvalue) list"
  | ParameterArgs "(string \<times> 'n pvalue) list"

datatype payload = Json json | Endpoints "endpoint list"

fun runCallback :: "('n, 'e) engine_client \<Rightarrow> callback \<Rightarrow> 'n tool_args \<Rightarrow> ('e + payload) option" where
  "runCallback engine ListDatabases args = Some (map_sum id Json (ec_getTargets engine))"
| "runCallback engine GetDatabaseStatus (TargetArgs target) =
     Some (map_sum id Json (ec_getTargetDbStatus engine target))"
| "runCallback engine GetStatus args = Some (map_sum id Json (ec_getStatus engine))"
| "runCallback engine GetDatabaseSchema (TargetArgs target) =
     Some (map_sum id Json (ec_getSchema engine target))"
| "runCallback engine RawReadonlyQuery (QueryArgs target query) =
     Some (map_sum id Json (ec_executeReadonlyQuery engine target query))"
| "runCallback engine RawQuery (QueryArgs target query) =
     Some (map_sum id Json (ec_executeReadWriteQuery engine target query))"
| "runCallback engine GetEndpoints args = Some (map_sum id Endpoints (ec_getEndpoints engine))"
| "runCallback engine CallEndpoint (EndpointArgs p m ps) =
     Some (map_sum id Json (ec_executeRequest engine
       \<lparr> req_path = p, req_requestMethod = m, req_parameters = ps \<rparr>))"
| "runCallback engine (DefinedQuery p m) (ParameterArgs args) =
     Some (map_sum id Json (ec_executeRequest engine
       \<lparr> req_path = p, req_requestMethod = m, req_parameters = args \<rparr>))"
| "runCallback engine cb args = None"

subsection \<open>The streaming HTTP transport\<close>

text \<open>
  \<open>const transports: { [sessionId: string]: SSEServerTransport } = {}\<close> is an ordinary
  object: its own entries, over the members it inherits from \<open>Object.prototype\<close>. Reading
  \<open>transports[sessionId]\<close> gives the own entry, else the inherited member of that name (a
  function, or the prototype itself for \<open>__proto__\<close>: truthy, and without a
  \<open>handlePostMessage\<close>), else \<open>undefined\<close>.
\<close>

definition object_prototype_members :: "string list" where
  "object_prototype_members =
     [''constructor'', ''__defineGetter__'', ''__defineSetter__'', ''hasOwnProperty'',
      ''__lookupGetter__'', ''__lookupSetter__'', ''isPrototypeOf'', ''propertyIsEnumerable'',
      ''toString'', ''valueOf'', ''__proto__'', ''toLocaleString'']"

datatype 't property = Undefined | Own 't | Inherited string

definition get_property :: "(string \<times> 't) list \<Rightarrow> string \<Rightarrow> 't property" where
  "get_property obj key =
     (case map_of obj key of
        Some t \<Rightarrow> Own t
      | None \<Rightarrow> if key \<in> set object_prototype_members then Inherited key else Undefined)"

text \<open>
  \<open>app.get("/sse")\<close> enters the new transport under its session id and \<open>res.on("close")\<close>
  deletes it.
\<close>

definition sse_open :: "string \<Rightarrow> 't \<Rightarrow> (string \<times> 't) list \<Rightarrow> (string \<times> 't) list" where
  "sse_open sessionId transport transports = AList.update sessionId transport transports"

definition sse_close :: "string \<Rightarrow> (string \<times> 't) list \<Rightarrow> (string \<times> 't) list" where
  "sse_close sessionId transports = AList.delete sessionId transports"

text \<open>
  \<open>req.query["sessionId"]\<close> is absent, a string, or what the query parser makes of a
  repeated or bracketed parameter.
\<close>

datatype query_value =
    QueryUndefined
  | QueryString string
  | QueryArray "string list"
  | QueryObject "(string \<times> string) list"

text \<open>
  The handler of \<open>app.post("/messages")\<close>: the response it sends, the transport whose
  \<open>handlePostMessage\<close> it awaits, or the \<open>TypeError\<close> of calling a \<open>handlePostMessage\<close> that
  is not there.
\<close>

datatype 't post_outcome =
    Responded int json
  | HandlePostMessage 't
  | ThrewTypeError string

definition post_messages :: "(string \<times> 't) list \<Rightarrow> query_value \<Rightarrow> 't post_outcome" where
  "post_messages transports sessionId =
     (case sessionId of
        QueryString s \<Rightarrow>
          (case get_property transports s of
             Undefined \<Rightarrow> Responded 400 (JObj [(''messages'', JStr ''Invalid sessionId.'')])
           | Own transport \<Rightarrow> HandlePostMessage transport
           | Inherited member \<Rightarrow> ThrewTypeError ''transport.handlePostMessage is not a function'')
      | _ \<Rightarrow> Responded 400 (JObj [(''messages'', JStr ''Invalid sessionId.'')]))"

section \<open>The packages behind getZodSchemaFromJsonSchema\<close>

text \<open>
  Modelled from the spec: json-schema-to-zod, zod and zod-to-json-schema are dependencies
  (package.json) whose code is not in the repository. The spec names the schema shapes the
  compiler supports (string, number, boolean, array of a supported item type, object with
  or without declared properties, enum); this section models the three packages on those
  shapes, after the code json-schema-to-zod generates for them, and mcp.test.ts states
  what the result must accept, reject and convert back to. A schema or a piece of code
  outside the shapes is \<open>Unmodelled\<close>: that says nothing about what the packages do with
  it.
\<close>

datatype unmodelled = Unmodelled

subsection \<open>json-schema-to-zod: the generated code\<close>

text \<open>
  \<open>JSON.stringify\<close> of a string, and \<open>Array.prototype.join\<close>. A character is a code unit
  below 256: the quote and the backslash are escaped with a backslash, a control character
  has its short escape or \<open>\u00XX\<close>, and every other character stands for itself.
\<close>

definition hexdigit :: "nat \<Rightarrow> char" where
  "hexdigit n = ''0123456789abcdef'' ! n"

fun escape_char :: "char \<Rightarrow> string" where
  "escape_char c =
     (if c = CHR 0x22 then [CHR 0x5C, CHR 0x22]
      else if c = CHR 0x5C then [CHR 0x5C, CHR 0x5C]
      else if c = CHR 0x08 then [CHR 0x5C, CHR ''b'']
      else if c = CHR 0x09 then [CHR 0x5C, CHR ''t'']
      else if c = CHR 0x0A then [CHR 0x5C, CHR ''n'']
      else if c = CHR 0x0C then [CHR 0x5C, CHR ''f'']
      else if c = CHR 0x0D then [CHR 0x5C, CHR ''r'']
      else if (of_char c :: nat) < 32
      then [CHR 0x5C, CHR ''u'', CHR ''0'', CHR ''0'',
            hexdigit (of_char c div 16), hexdigit (of_char c mod 16)]
      else [c])"

definition quote :: "string \<Rightarrow> string" where
  "quote s = [CHR 0x22] @ concat (map escape_char s) @ [CHR 0x22]"

fun join :: "string \<Rightarrow> string list \<Rightarrow> string" where
  "join sep [] = []"
| "join sep [x] = x"
| "join sep (x # y # ys) = x @ sep @ join sep (y # ys)"

fun option_map_all :: "('a \<Rightarrow> 'b option) \<Rightarrow> 'a list \<Rightarrow> 'b list option" where
  "option_map_all f [] = Some []"
| "option_map_all f (x # xs) =
     (case f x of None \<Rightarrow> None
      | Some y \<Rightarrow> (case option_map_all f xs of None \<Rightarrow> None | Some ys \<Rightarrow> Some (y # ys)))"

lemma option_map_all_cong [fundef_cong]:
  "xs = ys \<Longrightarrow> (\<And>x. x \<in> set ys \<Longrightarrow> f x = g x) \<Longrightarrow> option_map_all f xs = option_map_all g ys"
  by (induction ys arbitrary: xs) (auto split: option.splits)

text \<open>
  The keywords \<open>parseSchema\<close> looks at before it falls back to \<open>z.any()\<close>, and those that
  add \<open>.describe\<close>, \<open>.default\<close> or \<open>.readonly\<close> to the code.
\<close>

definition keys_within :: "(string \<times> json) list \<Rightarrow> string list \<Rightarrow> bool" where
  "keys_within kvs allowed = list_all (\<lambda>k. k \<in> set allowed) (map fst kvs)"

definition schema_keywords :: "string list" where
  "schema_keywords =
     [''nullable'', ''type'', ''anyOf'', ''allOf'', ''oneOf'', ''not'', ''enum'', ''const'',
      ''if'', ''description'', ''default'', ''readOnly'']"

fun string_of :: "json \<Rightarrow> string option" where
  "string_of (JStr s) = Some s"
| "string_of _ = None"

definition parseEnum :: "json list \<Rightarrow> string option" where
  "parseEnum values =
     (case option_map_all string_of values of
        None \<Rightarrow> None
      | Some strings \<Rightarrow>
          (case strings of
             [] \<Rightarrow> Some ''z.never()''
           | [x] \<Rightarrow> Some (''z.literal('' @ quote x @ '')'')
           | _ \<Rightarrow> Some (''z.enum(['' @ join '','' (map quote strings) @ ''])'')))"

lemma map_of_size: "map_of kvs k = Some v \<Longrightarrow> size (v::json) < Suc (size_list (size_prod (\<lambda>_. 0) size) kvs)"
  by (induction kvs) (auto split: if_splits)

fun is_array :: "json \<Rightarrow> bool" where
  "is_array (JArr xs) = True"
| "is_array _ = False"

lemma member_size:
  "kv \<in> set kvs \<Longrightarrow> size (snd kv :: json) < Suc (size_list (size_prod (\<lambda>_. 0) size) kvs)"
  by (induction kvs) auto

definition is_required :: "json option \<Rightarrow> string \<times> json \<Rightarrow> bool" where
  "is_required required kv =
     (case required of
        Some (JArr names) \<Rightarrow> JStr (fst kv) \<in> set names
      | _ \<Rightarrow> (case snd kv of JObj pkvs \<Rightarrow> map_of pkvs ''required'' = Some (JBool True) | _ \<Rightarrow> False))"

text \<open>
  \<open>parseSchema\<close>, in the order of its tests: a boolean schema; a schema without keywords
  (\<open>z.any()\<close>); \<open>type: "object"\<close> (\<open>parseObject\<close>: a property is \<open>.optional()\<close> unless
  \<open>required\<close> lists it, \<open>additionalProperties: false\<close> gives \<open>.strict()\<close>, an object without
  \<open>properties\<close> is a \<open>z.record\<close>); \<open>type: "array"\<close>; \<open>enum\<close>; the primitive types.
\<close>

function parseSchema :: "json \<Rightarrow> string option" where
  "parseSchema (JBool b) = Some (if b then ''z.any()'' else ''z.never()'')"
| "parseSchema (JObj kvs) =
     (if list_all (\<lambda>k. k \<notin> set schema_keywords) (map fst kvs) then Some ''z.any()''
      else if map_of kvs ''type'' = Some (JStr ''object'')
      then
        (if \<not> keys_within kvs [''type'', ''properties'', ''required'', ''additionalProperties'']
         then None
         else
           (case (case map_of kvs ''additionalProperties'' of
                    None \<Rightarrow> Some None
                  | Some ap \<Rightarrow> map_option Some (parseSchema ap)) of
              None \<Rightarrow> None
            | Some additionalProperties \<Rightarrow>
                (case map_of kvs ''properties'' of
                   None \<Rightarrow>
                     Some (case additionalProperties of
                             None \<Rightarrow> ''z.record(z.any())''
                           | Some ap \<Rightarrow> ''z.record('' @ ap @ '')'')
                 | Some (JObj props) \<Rightarrow>
                     (case option_map_all
                             (\<lambda>kv. case parseSchema (snd kv) of
                                     None \<Rightarrow> None
                                   | Some code \<Rightarrow>
                                       Some (quote (fst kv) @ '': '' @ code @
                                         (if is_required (map_of kvs ''required'') kv
                                          then [] else ''.optional()'')))
                             props of
                        None \<Rightarrow> None
                      | Some members \<Rightarrow>
                          Some ((if props = [] then ''z.object({})''
                                 else ''z.object({ '' @ join '', '' members @ '' })'') @
                                (case additionalProperties of
                                   None \<Rightarrow> []
                                 | Some ap \<Rightarrow>
                                     if ap = ''z.never()'' then ''.strict()''
                                     else ''.catchall('' @ ap @ '')'')))
                 | Some _ \<Rightarrow> None)))
      else if map_of kvs ''type'' = Some (JStr ''array'')
      then
        (if \<not> keys_within kvs [''type'', ''items''] then None
         else
           (case map_of kvs ''items'' of
              None \<Rightarrow> Some ''z.array(z.any())''
            | Some items \<Rightarrow>
                (if is_array items then None
                 else if \<not> truthy items then Some ''z.array(z.any())''
                 else (case parseSchema items of
                         None \<Rightarrow> None
                       | Some code \<Rightarrow> Some (''z.array('' @ code @ '')'')))))
      else if map_of kvs ''enum'' \<noteq> None
      then
        (if \<not> keys_within kvs [''type'', ''enum''] then None
         else (case map_of kvs ''enum'' of Some (JArr values) \<Rightarrow> parseEnum values | _ \<Rightarrow> None))
      else if kvs = [(''type'', JStr ''string'')] then Some ''z.string()''
      else if kvs = [(''type'', JStr ''number'')] then Some ''z.number()''
      else if kvs = [(''type'', JStr ''boolean'')] then Some ''z.boolean()''
      else None)"
| "parseSchema JNull = None"
| "parseSchema (JNum n) = None"
| "parseSchema (JStr s) = None"
| "parseSchema (JArr xs) = None"
  by pat_completeness auto
termination
  by (relation "measure size") (auto dest!: map_of_size member_size)

subsection \<open>Evaluating the generated code\<close>

text \<open>
  \<open>new Function("z", functionString)(z)\<close> for a \<open>functionString\<close> that returns one of the
  expressions above: the schema the expression builds. The first argument of the
  functions bounds the depth of the recursion; the text itself is long enough.
\<close>

definition starts :: "string \<Rightarrow> string \<Rightarrow> bool" where
  "starts pat s = (take (length pat) s = pat)"

definition after :: "string \<Rightarrow> string \<Rightarrow> string" where
  "after pat s = drop (length pat) s"

text \<open>
  A string literal in double quotes, from behind the opening quote: its value and the text
  after the closing quote. The escapes are those that \<open>JSON.stringify\<close> writes; a line
  break ends the literal in error.
\<close>

definition hexval :: "char \<Rightarrow> nat option" where
  "hexval c =
     (if c \<in> set ''0123456789'' then Some (of_char c - 48)
      else if c \<in> set ''abcdef'' then Some (of_char c - 87)
      else if c \<in> set ''ABCDEF'' then Some (of_char c - 55)
      else None)"

definition unicode_escape :: "char \<Rightarrow> char \<Rightarrow> char \<Rightarrow> char \<Rightarrow> char option" where
  "unicode_escape a b c d =
     (case (hexval a, hexval b, hexval c, hexval d) of
        (Some h, Some i, Some j, Some k) \<Rightarrow>
          if h = 0 \<and> i = 0 then Some (char_of (16 * j + k)) else None
      | _ \<Rightarrow> None)"

fun string_body :: "string \<Rightarrow> (string \<times> string) option" where
  "string_body [] = None"
| "string_body (c # cs) =
     (if c = CHR 0x22 then Some ([], cs)
      else if c = CHR 0x5C then
        (case cs of
           [] \<Rightarrow> None
         | d # ds \<Rightarrow>
             if d = CHR 0x22 \<or> d = CHR 0x5C
             then map_option (\<lambda>(s, r). (d # s, r)) (string_body ds)
             else if d = CHR ''b'' then map_option (\<lambda>(s, r). (CHR 0x08 # s, r)) (string_body ds)
             else if d = CHR ''t'' then map_option (\<lambda>(s, r). (CHR 0x09 # s, r)) (string_body ds)
             else if d = CHR ''n'' then map_option (\<lambda>(s, r). (CHR 0x0A # s, r)) (string_body ds)
             else if d = CHR ''f'' then map_option (\<lambda>(s, r). (CHR 0x0C # s, r)) (string_body ds)
             else if d = CHR ''r'' then map_option (\<lambda>(s, r). (CHR 0x0D # s, r)) (string_body ds)
             else if d = CHR ''u'' then
               (case ds of
                  h # i # j # k # rest \<Rightarrow>
                    (case unicode_escape h i j k of
                       None \<Rightarrow> None
                     | Some u \<Rightarrow> map_option (\<lambda>(s, r). (u # s, r)) (string_body rest))
                | _ \<Rightarrow> None)
             else None)
      else if c = CHR 0x0A \<or> c = CHR 0x0D then None
      else map_option (\<lambda>(s, r). (c # s, r)) (string_body cs))"

definition string_literal :: "string \<Rightarrow> (string \<times> string) option" where
  "string_literal s = (if starts [CHR 0x22] s then string_body (after [CHR 0x22] s) else None)"

fun string_literals :: "'f list \<Rightarrow> string \<Rightarrow> (string list \<times> string) option" where
  "string_literals [] s = None"
| "string_literals (f # fuel) s =
     (case string_literal s of
        None \<Rightarrow> None
      | Some (x, r) \<Rightarrow>
          if starts '','' r
          then map_option (\<lambda>(xs, r'). (x # xs, r')) (string_literals fuel (after '','' r))
          else Some ([x], r))"

text \<open>
  The properties of an object literal \<open>{ "k": v, ... }\<close>: under the key \<open>__proto__\<close> a
  literal sets the prototype of the object and makes no property.
\<close>

definition own_properties :: "(string \<times> 'a) list \<Rightarrow> (string \<times> 'a) list" where
  "own_properties entries = filter (\<lambda>entry. fst entry \<noteq> ''__proto__'') entries"

fun expression :: "'f list \<Rightarrow> string \<Rightarrow> (zod \<times> string) option"
and postfix :: "'f list \<Rightarrow> zod \<Rightarrow> string \<Rightarrow> (zod \<times> string) option"
and members :: "'f list \<Rightarrow> string \<Rightarrow> ((string \<times> zod) list \<times> string) option"
where
  "expression [] s = None"
| "expression (f # fuel) s =
     (if starts ''z.string()'' s then postfix fuel ZString (after ''z.string()'' s)
      else if starts ''z.number()'' s then postfix fuel ZNumber (after ''z.number()'' s)
      else if starts ''z.boolean()'' s then postfix fuel ZBoolean (after ''z.boolean()'' s)
      else if starts ''z.any()'' s then postfix fuel ZAny (after ''z.any()'' s)
      else if starts ''z.never()'' s then postfix fuel ZNever (after ''z.never()'' s)
      else if starts ''z.array('' s then
        (case expression fuel (after ''z.array('' s) of
           None \<Rightarrow> None
         | Some (z, r) \<Rightarrow>
             if starts '')'' r then postfix fuel (ZArray z) (after '')'' r) else None)
      else if starts ''z.record('' s then
        (case expression fuel (after ''z.record('' s) of
           None \<Rightarrow> None
         | Some (z, r) \<Rightarrow>
             if starts '')'' r then postfix fuel (ZRecord ZString z) (after '')'' r) else None)
      else if starts ''z.enum(['' s then
        (case string_literals s (after ''z.enum(['' s) of
           None \<Rightarrow> None
         | Some (xs, r) \<Rightarrow>
             if starts ''])'' r then postfix fuel (ZEnum xs) (after ''])'' r) else None)
      else if starts ''z.literal('' s then
        (case string_literal (after ''z.literal('' s) of
           None \<Rightarrow> None
         | Some (x, r) \<Rightarrow>
             if starts '')'' r then postfix fuel (ZLiteral (JStr x)) (after '')'' r) else None)
      else if starts ''z.object({})'' s then
        postfix fuel (ZObject [] Strip) (after ''z.object({})'' s)
      else if starts ''z.object({ '' s then
        (case members fuel (after ''z.object({ '' s) of
           None \<Rightarrow> None
         | Some (shape, r) \<Rightarrow>
             if starts '' })'' r
             then postfix fuel (ZObject (own_properties shape) Strip) (after '' })'' r)
             else None)
      else None)"
| "postfix [] z s = None"
| "postfix (f # fuel) z s =
     (if starts ''.optional()'' s then postfix fuel (ZOptional z) (after ''.optional()'' s)
      else if starts ''.strict()'' s then
        (case z of
           ZObject shape u \<Rightarrow> postfix fuel (ZObject shape Strict) (after ''.strict()'' s)
         | _ \<Rightarrow> None)
      else if starts ''.catchall('' s then
        (case z of
           ZObject shape u \<Rightarrow>
             (case expression fuel (after ''.catchall('' s) of
                None \<Rightarrow> None
              | Some (c, r) \<Rightarrow>
                  if starts '')'' r
                  then postfix fuel (ZCatchall shape c) (after '')'' r)
                  else None)
         | _ \<Rightarrow> None)
      else Some (z, s))"
| "members [] s = None"
| "members (f # fuel) s =
     (case string_literal s of
        None \<Rightarrow> None
      | Some (key, r) \<Rightarrow>
          if starts '': '' r then
            (case expression fuel (after '': '' r) of
               None \<Rightarrow> None
             | Some (z, r') \<Rightarrow>
                 if starts '', '' r'
                 then map_option (\<lambda>(shape, r''). ((key, z) # shape, r''))
                        (members fuel (after '', '' r'))
                 else Some ([(key, z)], r'))
          else None)"


definition pkg_newFunction :: "string \<Rightarrow> unmodelled + zod" where
  "pkg_newFunction functionString =
     (if starts ''return '' functionString
      then (case expression functionString (after ''return '' functionString) of
              None \<Rightarrow> Inl Unmodelled
            | Some (z, r) \<Rightarrow> if r = '';'' then Inr z else Inl Unmodelled)
      else Inl Unmodelled)"

definition pkg :: "unmodelled runtime" where
  "pkg = \<lparr> jsonSchemaToZod = (\<lambda>jsonSchema. case parseSchema jsonSchema of
                                  None \<Rightarrow> Inl Unmodelled | Some code \<Rightarrow> Inr code),
           newFunction = pkg_newFunction \<rparr>"

subsection \<open>zod: what a schema accepts\<close>

text \<open>
  \<open>schema.safeParse(value).success\<close> for a JSON value. A key that the value does not have
  is \<open>undefined\<close>, which \<open>z.any()\<close> and an optional schema accept.
\<close>

fun accepts_undefined :: "zod \<Rightarrow> bool" where
  "accepts_undefined ZAny = True"
| "accepts_undefined (ZOptional z) = True"
| "accepts_undefined (ZDescribe z d) = accepts_undefined z"
| "accepts_undefined (ZUnion zs) = list_ex accepts_undefined zs"
| "accepts_undefined z = False"

fun safeParse :: "zod \<Rightarrow> json \<Rightarrow> bool" where
  "safeParse ZString v = (case v of JStr s \<Rightarrow> True | _ \<Rightarrow> False)"
| "safeParse ZNumber v = (case v of JNum n \<Rightarrow> True | _ \<Rightarrow> False)"
| "safeParse ZBoolean v = (case v of JBool b \<Rightarrow> True | _ \<Rightarrow> False)"
| "safeParse ZAny v = True"
| "safeParse ZNever v = False"
| "safeParse (ZLiteral l) v = (v = l)"
| "safeParse (ZEnum options) v = (case v of JStr s \<Rightarrow> s \<in> set options | _ \<Rightarrow> False)"
| "safeParse (ZArray z) v = (case v of JArr xs \<Rightarrow> list_all (safeParse z) xs | _ \<Rightarrow> False)"
| "safeParse (ZRecord k z) v =
     (case v of
        JObj kvs \<Rightarrow> list_all (\<lambda>kv. safeParse k (JStr (fst kv)) \<and> safeParse z (snd kv)) kvs
      | _ \<Rightarrow> False)"
| "safeParse (ZUnion zs) v = list_ex (\<lambda>z. safeParse z v) zs"
| "safeParse (ZObject shape u) v =
     (case v of
        JObj kvs \<Rightarrow>
          list_all (\<lambda>kz. case map_of kvs (fst kz) of
                            None \<Rightarrow> accepts_undefined (snd kz)
                          | Some x \<Rightarrow> safeParse (snd kz) x) shape
          \<and> (u = Strip \<or> list_all (\<lambda>k. k \<in> set (map fst shape)) (map fst kvs))
      | _ \<Rightarrow> False)"
| "safeParse (ZCatchall shape c) v =
     (case v of
        JObj kvs \<Rightarrow>
          list_all (\<lambda>kz. case map_of kvs (fst kz) of
                            None \<Rightarrow> accepts_undefined (snd kz)
                          | Some x \<Rightarrow> safeParse (snd kz) x) shape
          \<and> list_all (\<lambda>kv. fst kv \<in> set (map fst shape) \<or> safeParse c (snd kv)) kvs
      | _ \<Rightarrow> False)"
| "safeParse (ZOptional z) v = safeParse z v"
| "safeParse (ZDescribe z d) v = safeParse z v"

subsection \<open>zod-to-json-schema\<close>

text \<open>
  \<open>zodToJsonSchema(schema)\<close>: the schema of the definition under the draft-07 \<open>$schema\<close>
  key added behind it. An object lists as \<open>required\<close> the properties that do not accept
  \<open>undefined\<close>; its \<open>additionalProperties\<close> is the schema of its catchall when it has one
  and \<open>false\<close> otherwise. An optional schema converts to the schema inside it where it is
  a property of an object, and to \<open>anyOf\<close> of \<open>{not: {}}\<close> and that schema elsewhere. A
  one-value literal converts to its type and \<open>const\<close>.
\<close>

fun unwrap :: "zod \<Rightarrow> zod" where
  "unwrap (ZOptional z) = unwrap z"
| "unwrap z = z"

lemma size_unwrap: "size (unwrap z) \<le> size z"
  by (induction z rule: unwrap.induct) auto

lemma shape_member_size:
  "kz \<in> set shape \<Longrightarrow> size (unwrap (snd kz)) < Suc (size_list (size_prod (\<lambda>_. 0) size) shape)"
proof (induction shape)
  case Nil
  then show ?case by simp
next
  case (Cons a shape)
  have "size (unwrap (snd a)) \<le> size (snd a)" by (rule size_unwrap)
  with Cons show ?case by (cases a) auto
qed

definition objectSchema :: "(string \<times> zod) list \<Rightarrow> (string \<times> json) list \<Rightarrow> json \<Rightarrow> json" where
  "objectSchema shape properties additional =
     JObj ([(''type'', JStr ''object''), (''properties'', JObj properties)] @
           (if list_all (\<lambda>kz. accepts_undefined (snd kz)) shape then []
            else [(''required'',
                   JArr (map (\<lambda>kz. JStr (fst kz))
                          (filter (\<lambda>kz. \<not> accepts_undefined (snd kz)) shape)))]) @
           [(''additionalProperties'', additional)])"

function (sequential) parseDef :: "zod \<Rightarrow> json option" where
  "parseDef ZString = Some (JObj [(''type'', JStr ''string'')])"
| "parseDef ZNumber = Some (JObj [(''type'', JStr ''number'')])"
| "parseDef ZBoolean = Some (JObj [(''type'', JStr ''boolean'')])"
| "parseDef ZAny = Some (JObj [])"
| "parseDef ZNever = Some (JObj [(''not'', JObj [])])"
| "parseDef (ZLiteral (JStr x)) = Some (JObj [(''type'', JStr ''string''), (''const'', JStr x)])"
| "parseDef (ZEnum options) =
     Some (JObj [(''type'', JStr ''string''), (''enum'', JArr (map JStr options))])"
| "parseDef (ZArray z) =
     (if z = ZAny then Some (JObj [(''type'', JStr ''array'')])
      else map_option (\<lambda>items. JObj [(''type'', JStr ''array''), (''items'', items)]) (parseDef z))"
| "parseDef (ZRecord k z) =
     (if k = ZString
      then map_option
             (\<lambda>additional. JObj [(''type'', JStr ''object''), (''additionalProperties'', additional)])
             (parseDef z)
      else None)"
| "parseDef (ZObject shape u) =
     map_option (\<lambda>properties. objectSchema shape properties (JBool False))
       (option_map_all (\<lambda>kz. map_option (\<lambda>j. (fst kz, j)) (parseDef (unwrap (snd kz)))) shape)"
| "parseDef (ZCatchall shape c) =
     (case option_map_all (\<lambda>kz. map_option (\<lambda>j. (fst kz, j)) (parseDef (unwrap (snd kz)))) shape of
        None \<Rightarrow> None
      | Some properties \<Rightarrow>
          if c = ZNever then Some (objectSchema shape properties (JBool False))
          else map_option (objectSchema shape properties) (parseDef c))"
| "parseDef (ZOptional z) =
     map_option (\<lambda>j. JObj [(''anyOf'', JArr [JObj [(''not'', JObj [])], j])]) (parseDef z)"
| "parseDef z = None"
  by pat_completeness auto
termination
  by (relation "measure size") (auto dest: shape_member_size)

definition zodToJsonSchema :: "zod \<Rightarrow> json option" where
  "zodToJsonSchema z =
     (case parseDef z of
        Some (JObj kvs) \<Rightarrow>
          Some (JObj (kvs @ [(''$schema'', JStr ''http://json-schema.org/draft-07/schema#'')]))
      | _ \<Rightarrow> None)"

section \<open>The test table of mcp.test.ts\<close>

text \<open>\<open>expect(a).toEqual(b)\<close> on JSON values: the order of an object's keys does not count.\<close>

fun toEqual :: "json \<Rightarrow> json \<Rightarrow> bool" where
  "toEqual (JObj a) b =
     (case b of
        JObj bs \<Rightarrow>
          list_all (\<lambda>kv. case map_of bs (fst kv) of None \<Rightarrow> False | Some w \<Rightarrow> toEqual (snd kv) w) a
          \<and> list_all (\<lambda>k. k \<in> set (map fst a)) (map fst bs)
      | _ \<Rightarrow> False)"
| "toEqual (JArr a) b = (case b of JArr bs \<Rightarrow> list_all2 toEqual a bs | _ \<Rightarrow> False)"
| "toEqual a b = (a = b)"

record test_case =
  tc_description :: string
  tc_jsonSchema :: json
  tc_expected :: "json option"
  shouldparse :: "json list"
  shouldnotparse :: "json list"

definition spread :: "json \<Rightarrow> (string \<times> json) list" where
  "spread j = (case j of JObj kvs \<Rightarrow> kvs | _ \<Rightarrow> [])"

definition test_passes :: "'x runtime \<Rightarrow> test_case \<Rightarrow> bool" where
  "test_passes rt tc =
     (case getZodSchemaFromJsonSchema rt (tc_jsonSchema tc) of
        Inl e \<Rightarrow> False
      | Inr zodSchema \<Rightarrow>
          list_all (safeParse zodSchema) (shouldparse tc)
          \<and> list_all (\<lambda>v. \<not> safeParse zodSchema v) (shouldnotparse tc)
          \<and> (case zodToJsonSchema zodSchema of
                None \<Rightarrow> False
              | Some j \<Rightarrow>
                  toEqual j
                    (JObj ((''$schema'', JStr ''http://json-schema.org/draft-07/schema#'') #
                           spread (case tc_expected tc of
                                     Some e \<Rightarrow> e | None \<Rightarrow> tc_jsonSchema tc)))))"

definition test_cases :: "test_case list" where
  "test_cases =
     [\<lparr> tc_description = ''string'',
        tc_jsonSchema = JObj [(''type'', JStr ''string'')],
        tc_expected = None,
        shouldparse = [JStr ''a'', JStr ''b'', JStr ''c''],
        shouldnotparse = [JNum 1, JNum 2, JNum 3] \<rparr>,
      \<lparr> tc_description = ''number'',
        tc_jsonSchema = JObj [(''type'', JStr ''number'')],
        tc_expected = None,
        shouldparse = [JNum 1, JNum 2, JNum 3],
        shouldnotparse = [JStr ''a'', JStr ''b'', JStr ''c''] \<rparr>,
      \<lparr> tc_description = ''boolean'',
        tc_jsonSchema = JObj [(''type'', JStr ''boolean'')],
        tc_expected = None,
        shouldparse = [JBool True, JBool False],
        shouldnotparse = [JStr ''a'', JStr ''b'', JStr ''c''] \<rparr>,
      \<lparr> tc_description = ''array'',
        tc_jsonSchema = JObj [(''type'', JStr ''array''), (''items'', JObj [(''type'', JStr ''number'')])],
        tc_expected = None,
        shouldparse = [JArr [JNum 1, JNum 2, JNum 3], JArr [JNum 4, JNum 5, JNum 6]],
        shouldnotparse = [JNum 1, JStr ''a'', JBool True, JObj [(''a'', JNum 1)],
                          JArr [JNum 1, JStr ''a'']] \<rparr>,
      \<lparr> tc_description = ''object'',
        tc_jsonSchema = JObj [(''type'', JStr ''object'')],
        tc_expected = Some (JObj [(''type'', JStr ''object''), (''additionalProperties'', JObj [])]),
        shouldparse = [JObj [(''a'', JNum 1)], JObj [(''b'', JNum 2)], JObj [(''c'', JNum 3)]],
        shouldnotparse = [JNum 1, JStr ''a'', JBool True, JArr [JNum 1, JStr ''a'']] \<rparr>,
      \<lparr> tc_description = ''enum'',
        tc_jsonSchema = JObj [(''type'', JStr ''string''),
                              (''enum'', JArr [JStr ''a'', JStr ''b'', JStr ''c''])],
        tc_expected = None,
        shouldparse = [JStr ''a'', JStr ''b'', JStr ''c''],
        shouldnotparse = [JStr ''d'', JStr ''e'', JStr ''f''] \<rparr>,
      \<lparr> tc_description = ''oneOf'',
        tc_jsonSchema = JObj [(''oneOf'', JArr [JObj [(''type'', JStr ''string'')],
                                                JObj [(''type'', JStr ''number'')]])],
        tc_expected = Some (JObj []),
        shouldparse = [JStr ''a'', JNum 1],
        shouldnotparse = [JBool False, JObj [], JNull, JArr []] \<rparr>,
      \<lparr> tc_description = ''complex'',
        tc_jsonSchema = JObj
          [(''type'', JStr ''object''),
           (''properties'', JObj [(''name'', JObj [(''type'', JStr ''string'')]),
                                  (''age'', JObj [(''type'', JStr ''number'')])]),
           (''required'', JArr [JStr ''name'']),
           (''additionalProperties'', JBool False)],
        tc_expected = None,
        shouldparse = [JObj [(''name'', JStr ''John''), (''age'', JNum 30)],
                       JObj [(''name'', JStr ''Jane''), (''age'', JNum 25)]],
        shouldnotparse = [JNum 1, JStr ''a'', JBool True, JObj [(''a'', JNum 1)],
                          JArr [JNum 1, JStr ''a'']] \<rparr>]"

section \<open>Vocabulary of the statements\<close>

text \<open>
  The built-in tools that the disable-list leaves, under their prefixed names; the
  endpoints that it leaves; and the tool \<open>addEndpoints\<close> registers for each of these, with
  the entries its parameters compile to.
\<close>

definition enabled_builtins :: "string option \<Rightarrow> string list option \<Rightarrow> tool list" where
  "enabled_builtins toolPrefix disableTools =
     map (\<lambda>t. t\<lparr> tool_name := prefixed toolPrefix (tool_name t) \<rparr>)
       (filter (\<lambda>t. \<not> js_includes disableTools (tool_name t)) builtin_tools)"

definition enabled_endpoints :: "string list option \<Rightarrow> endpoint list \<Rightarrow> endpoint list" where
  "enabled_endpoints disableTools endpoints =
     filter (\<lambda>ep. \<not> js_includes disableTools (''query_'' @ path ep)) endpoints"

definition endpoint_tools ::
  "'x runtime \<Rightarrow> string option \<Rightarrow> string list option \<Rightarrow> endpoint list \<Rightarrow> tool list"
where
  "endpoint_tools rt toolPrefix disableTools endpoints =
     map (\<lambda>ep. endpoint_tool toolPrefix ep
                 (case parameterEntries rt ep of Inr entries \<Rightarrow> entries | Inl e \<Rightarrow> []))
       (enabled_endpoints disableTools endpoints)"

section \<open>The schema shapes of the round trip\<close>

text \<open>
  The schemas for which compiling and converting back is proved to give the original
  schema. Each is an object with exactly the keywords of its shape, in any order:
  \<open>{type: "string"}\<close>, \<open>{type: "number"}\<close>, \<open>{type: "boolean"}\<close>; an array
  \<open>{type: "array", items: S}\<close> of such a shape; an enum \<open>{type: "string", enum: [...]}\<close> of
  two or more strings; an object without declared properties
  \<open>{type: "object", additionalProperties: A}\<close> where \<open>A\<close> is \<open>{}\<close> or such a shape; and an
  object with declared properties
  \<open>{type: "object", properties: {...}, required: [...], additionalProperties: A}\<close> whose
  properties are such shapes, none of them named \<open>__proto__\<close>, where \<open>A\<close> is \<open>false\<close>, \<open>{}\<close>
  or such a shape and \<open>required\<close>, when it is there, is not empty and lists names of
  properties in the order of \<open>properties\<close>, each once. No enum value and no property name
  holds the text \<open><z.ZodError[]>\<close>, which \<open>getZodSchemaFromJsonSchema\<close> removes from the
  generated code.
\<close>

fun occurs_in :: "string \<Rightarrow> string \<Rightarrow> bool" where
  "occurs_in pat [] = (pat = [])"
| "occurs_in pat (c # cs) = (take (length pat) (c # cs) = pat \<or> occurs_in pat cs)"

definition plain_string :: "json \<Rightarrow> bool" where
  "plain_string v = (case v of JStr x \<Rightarrow> \<not> occurs_in tsAnnotation x | _ \<Rightarrow> False)"

definition required_in_order :: "json \<Rightarrow> string list \<Rightarrow> bool" where
  "required_in_order required names =
     (case required of
        JArr rs \<Rightarrow> rs \<noteq> [] \<and> rs = map JStr (filter (\<lambda>k. JStr k \<in> set rs) names)
      | _ \<Rightarrow> False)"

definition keys_are :: "(string \<times> json) list \<Rightarrow> string list \<Rightarrow> bool" where
  "keys_are kvs ks = (distinct (map fst kvs) \<and> set (map fst kvs) = set ks)"

function supported_shape :: "json \<Rightarrow> bool" where
  "supported_shape (JObj kvs) =
     (if map_of kvs ''type'' = Some (JStr ''object'') then
        (case map_of kvs ''additionalProperties'' of
           None \<Rightarrow> False
         | Some additional \<Rightarrow>
             (case map_of kvs ''properties'' of
                None \<Rightarrow>
                  keys_are kvs [''type'', ''additionalProperties'']
                  \<and> (additional = JObj [] \<or> supported_shape additional)
              | Some (JObj props) \<Rightarrow>
                  (case map_of kvs ''required'' of
                     None \<Rightarrow> keys_are kvs [''type'', ''properties'', ''additionalProperties'']
                   | Some required \<Rightarrow>
                       keys_are kvs [''type'', ''properties'', ''required'', ''additionalProperties'']
                       \<and> required_in_order required (map fst props))
                  \<and> distinct (map fst props)
                  \<and> list_all (\<lambda>kv. fst kv \<noteq> ''__proto__'' \<and> \<not> occurs_in tsAnnotation (fst kv)
                                  \<and> supported_shape (snd kv)) props
                  \<and> (additional = JBool False \<or> additional = JObj [] \<or> supported_shape additional)
              | Some _ \<Rightarrow> False))
      else if map_of kvs ''type'' = Some (JStr ''array'') then
        keys_are kvs [''type'', ''items'']
        \<and> (case map_of kvs ''items'' of None \<Rightarrow> False | Some items \<Rightarrow> supported_shape items)
      else if map_of kvs ''type'' = Some (JStr ''string'') then
        keys_are kvs [''type'']
        \<or> keys_are kvs [''type'', ''enum'']
          \<and> (case map_of kvs ''enum'' of
                Some (JArr values) \<Rightarrow> 2 \<le> length values \<and> list_all plain_string values
              | _ \<Rightarrow> False)
      else (map_of kvs ''type'' = Some (JStr ''number'') \<or> map_of kvs ''type'' = Some (JStr ''boolean''))
           \<and> keys_are kvs [''type''])"
| "supported_shape JNull = False"
| "supported_shape (JBool b) = False"
| "supported_shape (JNum n) = False"
| "supported_shape (JStr s) = False"
| "supported_shape (JArr xs) = False"
  by pat_completeness auto
termination
  by (relation "measure size") (auto dest!: map_of_size member_size)

subsection \<open>Predicates of the proof\<close>

text \<open>
  A piece of code is \<open>transparent\<close> when the annotation text occurs neither in it nor
  across its end; it \<open>parses\<close> to a schema when evaluating it, followed by anything that is
  not a method call except \<open>.optional()\<close>, gives that schema and leaves what follows; it
  \<open>opens\<close> an object when it evaluates to \<open>z.object\<close> of a shape and leaves the method
  calls that follow to be applied. A schema \<open>compiles\<close> when json-schema-to-zod generates
  such code for it and the schema the code evaluates to converts back to an equal JSON
  schema.
\<close>

definition transparent :: "string \<Rightarrow> bool" where
  "transparent code = (\<forall>t. occurs_in tsAnnotation (code @ t) = occurs_in tsAnnotation t)"

definition plain_char :: "char \<Rightarrow> bool" where
  "plain_char c = (escape_char c = [c])"

definition stops :: "string \<Rightarrow> bool" where
  "stops rest = (rest = [] \<or> hd rest \<noteq> CHR ''.'')"

definition tail :: "zod \<Rightarrow> string \<Rightarrow> zod \<Rightarrow> string \<Rightarrow> bool" where
  "tail z t z' rest =
     (stops rest \<and> ((t = rest \<and> z' = z) \<or> (t = ''.optional()'' @ rest \<and> z' = ZOptional z)))"

definition parses :: "string \<Rightarrow> zod \<Rightarrow> bool" where
  "parses code z =
     (\<forall>(fuel :: string) t z' rest. tail z t z' rest \<longrightarrow> length (code @ t) < length fuel \<longrightarrow>
        expression fuel (code @ t) = Some (z', rest))"

definition opens :: "string \<Rightarrow> (string \<times> zod) list \<Rightarrow> bool" where
  "opens code shape =
     (\<forall>(f :: char) fuel t. length (code @ t) < length (f # fuel) \<longrightarrow>
        expression (f # fuel) (code @ t) = postfix fuel (ZObject shape Strip) t)"

definition compiles :: "json \<Rightarrow> string \<Rightarrow> zod \<Rightarrow> json \<Rightarrow> bool" where
  "compiles s code z j =
     (parseSchema s = Some code \<and> transparent code \<and> parses code z \<and> parseDef z = Some j
      \<and> toEqual j s)"

definition good :: "json \<Rightarrow> string \<Rightarrow> zod \<Rightarrow> json \<Rightarrow> bool" where
  "good s code z j =
     (compiles s code z j \<and> code \<noteq> ''z.never()'' \<and> \<not> accepts_undefined z \<and> unwrap z = z
      \<and> z \<noteq> ZNever)"

definition filling :: "json \<Rightarrow> string \<Rightarrow> zod \<Rightarrow> json \<Rightarrow> bool" where
  "filling s code z j = (compiles s code z j \<and> code \<noteq> ''z.never()'' \<and> z \<noteq> ZNever)"

section \<open>Sample inputs\<close>

text \<open>
  Concrete values at which the theorems below are evaluated: the decimal text of an
  integer (what \<open>String\<close> gives an integral number below \<open>10^21\<close>); a generated client
  that answers an endpoint call with the parameters it was sent; endpoint metadata, one
  of them with a parameter that has no schema, and the mock engine serving it; options;
  a runtime whose schema transformation throws; and the error of a response with a text
  body.
\<close>

definition digit :: "nat \<Rightarrow> char" where
  "digit n = ''0123456789'' ! n"

function decimal_nat :: "nat \<Rightarrow> string" where
  "decimal_nat n = (if n < 10 then [digit n] else decimal_nat (n div 10) @ [digit (n mod 10)])"
  by pat_completeness auto
termination
  by (relation "measure id") auto

definition decimal :: "int \<Rightarrow> string" where
  "decimal i = (if i < 0 then ''-'' @ decimal_nat (nat (- i)) else decimal_nat (nat i))"

fun json_of_int_pvalue :: "int pvalue \<Rightarrow> json" where
  "json_of_int_pvalue (PString s) = JStr s"
| "json_of_int_pvalue (PNumber n) = JNum (of_int n)"
| "json_of_int_pvalue (PBoolean b) = JBool b"

definition echo_client :: "(int, unit) raw_client" where
  "echo_client =
     \<lparr> executeEndpointOnGet = (\<lambda>p query. Inr (JObj (map (\<lambda>(k, v). (k, JStr v)) query))),
       executeEndpointOnPost = (\<lambda>p body. Inr (JObj (map (\<lambda>(k, v). (k, json_of_int_pvalue v)) body))),
       raw_getEndpoints = Inr [],
       raw_getStatus = Inl (NotAxios ()),
       raw_getTargetDbStatus = (\<lambda>t. Inr (JObj [(''ok'', JBool True)])),
       raw_executeReadonlyQuery = (\<lambda>t q. Inr (JObj [])),
       raw_executeReadWriteQuery = (\<lambda>t q. Inr (JObj [])),
       raw_getSchema = (\<lambda>t. Inr (JObj [])),
       raw_getTargets = Inr (JObj [(''data'', JArr [])]) \<rparr>"

definition sample_endpoints :: "endpoint list" where
  "sample_endpoints =
     [\<lparr> path = ''cars'', requestMethod = ''GET'', description = Some ''Cars of a make'',
        params =
          [(''make'', \<lparr> schema = Some (JObj [(''type'', JStr ''string'')]), optional = False,
                        param_description = ''The make'' \<rparr>),
           (''limit'', \<lparr> schema = Some (JObj [(''type'', JStr ''number'')]), optional = True,
                         param_description = ''How many'' \<rparr>)] \<rparr>,
      \<lparr> path = ''orders'', requestMethod = ''POST'', description = None, params = [] \<rparr>]"

definition broken_endpoint :: endpoint where
  "broken_endpoint =
     \<lparr> path = ''broken'', requestMethod = ''GET'', description = None,
       params = [(''id'', \<lparr> schema = None, optional = False, param_description = ''The id'' \<rparr>)] \<rparr>"

definition sample_engine :: "endpoint list \<Rightarrow> (rat, unmodelled) engine_client" where
  "sample_engine endpoints = testEngineClient\<lparr> ec_getEndpoints := Inr endpoints \<rparr>"

definition sample_options :: "bool \<Rightarrow> string list \<Rightarrow> mcp_options" where
  "sample_options dynamic disabled =
     \<lparr> opt_name = ''Neurelo Connect'', opt_toolPrefix = Some ''db'',
       opt_dynamicEndpointTools = dynamic, opt_disableTools = Some disabled \<rparr>"

definition two_orders :: "endpoint list" where
  "two_orders = [sample_endpoints ! 1, sample_endpoints ! 1]"

definition throwing_runtime :: "unit runtime" where
  "throwing_runtime = \<lparr> jsonSchemaToZod = (\<lambda>jsonSchema. Inl ()), newFunction = (\<lambda>code. Inl ()) \<rparr>"

definition bad_gateway :: axios_error where
  "bad_gateway =
     \<lparr> config = Some \<lparr> config_method = Some ''get'', config_url = Some ''https://engine/status'' \<rparr>,
       response = Some \<lparr> response_status = 502, response_headers = [(''content-type'', ''text/plain'')],
                         response_data = Some (JStr ''Bad Gateway'') \<rparr> \<rparr>"

section \<open>Lemmas\<close>

subsection \<open>The parameter loop of executeRequest\<close>

lemma update_fresh: "k \<notin> fst ` set acc \<Longrightarrow> AList.update k v acc = acc @ [(k, v)]"
  by (induction acc) auto

lemma foldl_assign_distinct:
  "distinct (map fst acc @ map fst ps) \<Longrightarrow>
   foldl (\<lambda>parameters (key, v). assign key (f v) parameters) acc ps
     = acc @ map (\<lambda>(k, v). (k, f v)) (filter (\<lambda>(k, v). k \<noteq> ''__proto__'') ps)"
proof (induction ps arbitrary: acc)
  case Nil
  then show ?case by simp
next
  case (Cons p ps)
  obtain k v where p: "p = (k, v)" by (cases p)
  show ?case
  proof (cases "k = ''__proto__''")
    case True
    from Cons.prems have "distinct (map fst acc @ map fst ps)" by (auto simp: p)
    from Cons.IH[OF this] show ?thesis by (simp add: p True assign_def)
  next
    case False
    from Cons.prems have "k \<notin> fst ` set acc" by (auto simp: p)
    with False have u: "assign k (f v) acc = acc @ [(k, f v)]"
      by (simp add: assign_def update_fresh)
    from Cons.prems have "distinct (map fst (acc @ [(k, f v)]) @ map fst ps)"
      by (auto simp: p)
    from Cons.IH[OF this] show ?thesis by (simp add: p u False)
  qed
qed

text \<open>
  The loop on the entries of an object (their keys are distinct): every entry comes out
  under its key, in order, with \<open>String\<close> of its value, but an entry whose key is
  \<open>__proto__\<close>, which is lost.
\<close>

lemma stringifyParameters_distinct:
  "distinct (map fst ps) \<Longrightarrow>
   stringifyParameters f ps =
     map (\<lambda>(k, v). (k, js_String f v)) (filter (\<lambda>(k, v). k \<noteq> ''__proto__'') ps)"
  unfolding stringifyParameters_def using foldl_assign_distinct[of "[]" ps "js_String f"] by simp

lemma stringifyParameters_proto:
  "stringifyParameters f [(''__proto__'', v)] = []"
  by (simp add: stringifyParameters_def assign_def)

lemma executeRequest_encoding:
  assumes "distinct (map fst (req_parameters args))"
  shows "executeRequest numberToString base args =
           (if req_requestMethod args = ''GET''
            then settle (executeEndpointOnGet base (req_path args)
                   (map (\<lambda>(key, v). (key, js_String numberToString v))
                      (filter (\<lambda>(key, v). key \<noteq> ''__proto__'') (req_parameters args))))
            else settle (executeEndpointOnPost base (req_path args) (req_parameters args)))"
  using assms by (simp add: executeRequest_def stringifyParameters_distinct)

lemma decimal_42: "decimal 42 = ''42''"
  by (simp add: decimal_def digit_def)

lemma executeRequest_sample:
  "executeRequest decimal echo_client
     \<lparr> req_path = ''test'', req_requestMethod = ''GET'',
       req_parameters = [(''limit'', PNumber 42), (''all'', PBoolean True), (''q'', PString ''x'')] \<rparr>
     = Inr (JObj [(''limit'', JStr ''42''), (''all'', JStr ''true''), (''q'', JStr ''x'')])"
  "executeRequest decimal echo_client
     \<lparr> req_path = ''test'', req_requestMethod = ''get'',
       req_parameters = [(''limit'', PNumber 42), (''all'', PBoolean True), (''q'', PString ''x'')] \<rparr>
     = Inr (JObj [(''limit'', JNum 42), (''all'', JBool True), (''q'', JStr ''x'')])"
  by (simp_all add: executeRequest_encoding echo_client_def settle_def decimal_42)

subsection \<open>Tool names\<close>

lemma prefixed_inject: "prefixed p a = prefixed p b \<longleftrightarrow> a = b"
  by (auto simp: prefixed_def split: option.splits)

lemma builtin_names:
  "map tool_name builtin_tools =
     [''system_list_databases'', ''system_get_database_status'', ''system_get_status'',
      ''system_get_database_schema'', ''raw_readonly_query'', ''raw_query'']"
  by (simp add: builtin_tools_def)

lemma builtin_names_distinct: "distinct (map tool_name builtin_tools)"
  unfolding builtin_names by simp

lemma builtin_not_query:
  "n \<in> set (map tool_name builtin_tools) \<Longrightarrow> n \<noteq> ''query_'' @ x"
  unfolding builtin_names by auto

lemma builtin_not_dynamic:
  "n \<in> set (map tool_name builtin_tools) \<Longrightarrow> n \<noteq> ''system_get_endpoints'' \<and> n \<noteq> ''call_endpoint''"
  unfolding builtin_names by auto

lemma enabled_builtins_names:
  "set (map tool_name (enabled_builtins p d)) =
     prefixed p ` {n \<in> set (map tool_name builtin_tools). \<not> js_includes d n}"
  by (auto simp: enabled_builtins_def)

lemma enabled_builtins_member:
  "prefixed p n \<in> set (map tool_name (enabled_builtins p d)) \<longleftrightarrow>
     n \<in> set (map tool_name builtin_tools) \<and> \<not> js_includes d n"
  unfolding enabled_builtins_names by (auto simp: prefixed_inject)

lemma enabled_builtins_distinct: "distinct (map tool_name (enabled_builtins p d))"
proof -
  have "inj (prefixed p)" by (simp add: inj_def prefixed_inject)
  then have "distinct (map (prefixed p)
      (map tool_name (filter (\<lambda>t. \<not> js_includes d (tool_name t)) builtin_tools)))"
    using builtin_names_distinct by (simp add: distinct_map distinct_map_filter inj_on_def)
  then show ?thesis by (simp add: enabled_builtins_def comp_def)
qed

lemma endpoint_tools_names:
  "map tool_name (endpoint_tools rt p d eps) =
     map (\<lambda>ep. prefixed p (''query_'' @ path ep)) (enabled_endpoints d eps)"
  by (simp add: endpoint_tools_def endpoint_tool_def comp_def)

lemma builtins_endpoints_disjoint:
  "set (map tool_name (enabled_builtins p d)) \<inter> set (map tool_name (endpoint_tools rt p d' eps)) = {}"
  unfolding enabled_builtins_names endpoint_tools_names
  using builtin_not_query by (auto simp: prefixed_inject)

subsection \<open>Registration\<close>

lemma server_tool_fresh:
  "tool_name t \<notin> set (map tool_name server) \<Longrightarrow> server_tool t server = Inr (server @ [t])"
  by (simp add: server_tool_def)

lemma registerBuiltins_distinct:
  "distinct (map tool_name server @
      map (\<lambda>t. prefixed p (tool_name t)) (filter (\<lambda>t. \<not> js_includes d (tool_name t)) ts)) \<Longrightarrow>
   registerBuiltins ts p d server =
     Inr (server @ map (\<lambda>t. t\<lparr> tool_name := prefixed p (tool_name t) \<rparr>)
                    (filter (\<lambda>t. \<not> js_includes d (tool_name t)) ts))"
proof (induction ts arbitrary: server)
  case Nil
  then show ?case by simp
next
  case (Cons t ts)
  show ?case
  proof (cases "js_includes d (tool_name t)")
    case True
    with Cons show ?thesis by simp
  next
    case False
    let ?t = "t\<lparr> tool_name := prefixed p (tool_name t) \<rparr>"
    from Cons.prems False have fresh: "tool_name ?t \<notin> set (map tool_name server)"
      by auto
    from Cons.prems False have
      "distinct (map tool_name (server @ [?t]) @
         map (\<lambda>t. prefixed p (tool_name t)) (filter (\<lambda>t. \<not> js_includes d (tool_name t)) ts))"
      by auto
    from Cons.IH[OF this] False show ?thesis
      by (simp add: server_tool_fresh[OF fresh])
  qed
qed

lemma registerBuiltins_fresh:
  "registerBuiltins builtin_tools p d [] = Inr (enabled_builtins p d)"
proof -
  have "distinct (map (\<lambda>t. prefixed p (tool_name t))
          (filter (\<lambda>t. \<not> js_includes d (tool_name t)) builtin_tools))"
    using enabled_builtins_distinct[of p d] by (simp add: enabled_builtins_def comp_def)
  then show ?thesis
    using registerBuiltins_distinct[of "[]" p d builtin_tools]
    by (simp add: enabled_builtins_def)
qed

lemma endpoint_tools_Nil: "endpoint_tools rt p d [] = []"
  by (simp add: endpoint_tools_def enabled_endpoints_def)

lemma endpoint_tools_Cons:
  "endpoint_tools rt p d (ep # eps) =
     (if js_includes d (''query_'' @ path ep) then endpoint_tools rt p d eps
      else endpoint_tool p ep (case parameterEntries rt ep of Inr en \<Rightarrow> en | Inl e \<Rightarrow> [])
             # endpoint_tools rt p d eps)"
  by (simp add: endpoint_tools_def enabled_endpoints_def)

lemma addEndpoints_Inr_iff:
  "addEndpoints rt server eps p d = Inr server' \<longleftrightarrow>
     (\<forall>ep \<in> set eps. \<exists>en. parameterEntries rt ep = Inr en) \<and>
     distinct (map tool_name (endpoint_tools rt p d eps)) \<and>
     set (map tool_name server) \<inter> set (map tool_name (endpoint_tools rt p d eps)) = {} \<and>
     server' = server @ endpoint_tools rt p d eps"
proof (induction eps arbitrary: server)
  case Nil
  then show ?case by (auto simp: endpoint_tools_Nil)
next
  case (Cons ep eps)
  show ?case
  proof (cases "parameterEntries rt ep")
    case (Inl e)
    then show ?thesis by auto
  next
    case (Inr en)
    show ?thesis
    proof (cases "js_includes d (''query_'' @ path ep)")
      case True
      with Inr Cons.IH[of server] show ?thesis
        by (simp add: endpoint_tools_Cons)
    next
      case False
      let ?t = "endpoint_tool p ep en"
      show ?thesis
      proof (cases "tool_name ?t \<in> set (map tool_name server)")
        case True
        then have "server_tool ?t server =
            (Inl (Err (new_Error (Message (''Tool '' @ tool_name ?t @ '' is already registered'') None)))
              :: 'a thrown + mcp_server)"
          by (simp add: server_tool_def)
        with Inr False True show ?thesis
          by (auto simp: endpoint_tools_Cons)
      next
        case fresh: False
        have st: "server_tool ?t server = (Inr (server @ [?t]) :: 'a thrown + mcp_server)"
          using fresh by (simp add: server_tool_def)
        show ?thesis
          using Inr False fresh Cons.IH[of "server @ [?t]"]
          by (auto simp: endpoint_tools_Cons st)
      qed
    qed
  qed
qed

lemma addEndpoints_compile_error:
  "ep \<in> set eps \<Longrightarrow> parameterEntries rt ep = Inl e \<Longrightarrow>
   \<exists>e'. addEndpoints rt server eps p d = Inl e'"
proof -
  assume a: "ep \<in> set eps" "parameterEntries rt ep = Inl e"
  have "\<not> (\<exists>server'. addEndpoints rt server eps p d = Inr server')"
    using a by (fastforce simp: addEndpoints_Inr_iff)
  then show ?thesis by (cases "addEndpoints rt server eps p d") auto
qed

lemma startMcpServer_dynamic:
  "opt_dynamicEndpointTools opts \<Longrightarrow>
   startMcpServer rt engine opts =
     (0, Inr (enabled_builtins (opt_toolPrefix opts) (opt_disableTools opts) @
              [system_get_endpoints (opt_toolPrefix opts), call_endpoint (opt_toolPrefix opts)]))"
proof -
  assume dyn: "opt_dynamicEndpointTools opts"
  let ?p = "opt_toolPrefix opts" and ?d = "opt_disableTools opts"
  have n1: "prefixed ?p ''system_get_endpoints'' \<notin> set (map tool_name (enabled_builtins ?p ?d))"
    using builtin_not_dynamic[of "''system_get_endpoints''"]
    unfolding enabled_builtins_member by blast
  have n2: "prefixed ?p ''call_endpoint'' \<notin> set (map tool_name (enabled_builtins ?p ?d))"
    using builtin_not_dynamic[of "''call_endpoint''"]
    unfolding enabled_builtins_member by blast
  have a: "tool_name (system_get_endpoints ?p) \<notin> set (map tool_name (enabled_builtins ?p ?d))"
    using n1 by (simp add: system_get_endpoints_def)
  have "tool_name (call_endpoint ?p) \<noteq> tool_name (system_get_endpoints ?p)"
    by (simp add: call_endpoint_def system_get_endpoints_def prefixed_inject)
  moreover have "tool_name (call_endpoint ?p) \<notin> set (map tool_name (enabled_builtins ?p ?d))"
    using n2 by (simp add: call_endpoint_def)
  ultimately have b: "tool_name (call_endpoint ?p) \<notin>
      set (map tool_name (enabled_builtins ?p ?d @ [system_get_endpoints ?p]))"
    by auto
  show ?thesis
    using dyn
    by (simp add: startMcpServer_def registerBuiltins_fresh server_tool_fresh[OF a]
        server_tool_fresh[OF b])
qed

lemma startMcpServer_static:
  "\<not> opt_dynamicEndpointTools opts \<Longrightarrow>
   startMcpServer rt engine opts =
     (1, case ec_getEndpoints engine of
           Inl e \<Rightarrow> Inl (Raised e)
         | Inr endpoints \<Rightarrow>
             addEndpoints rt (enabled_builtins (opt_toolPrefix opts) (opt_disableTools opts))
               endpoints (opt_toolPrefix opts) (opt_disableTools opts))"
  by (simp add: startMcpServer_def registerBuiltins_fresh)

lemma addEndpoints_Inl_cases:
  "addEndpoints rt server eps p d = Inl e \<Longrightarrow>
     (\<exists>ep \<in> set eps. parameterEntries rt ep = Inl e)
   \<or> (\<exists>n. e = Err (new_Error (Message (''Tool '' @ n @ '' is already registered'') None)))"
proof (induction eps arbitrary: server)
  case Nil
  then show ?case by simp
next
  case (Cons ep eps)
  then show ?case
    by (auto simp: server_tool_def split: sum.splits if_splits)
qed

lemma map_throwing_Inl_iff:
  "(\<exists>e. map_throwing f xs = Inl e) \<longleftrightarrow> (\<exists>x \<in> set xs. \<exists>e. f x = Inl e)"
  by (induction xs) (auto split: sum.splits)

lemma parameterEntry_no_schema:
  "schema param = None \<or> (\<exists>js. schema param = Some js \<and> \<not> truthy js) \<Longrightarrow>
   parameterEntry rt ep (name, param) =
     Inl (Err (new_Error (Message
       (''No schema found for parameter '' @ name @ '' in endpoint '' @ path ep) None)))"
  by (auto simp: parameterEntry_def)

lemma parameterEntry_compile_error:
  "schema param = Some js \<Longrightarrow> truthy js \<Longrightarrow> getZodSchemaFromJsonSchema rt js = Inl e \<Longrightarrow>
   parameterEntry rt ep (name, param) = Inl e"
  by (simp add: parameterEntry_def)

lemma parameterEntries_fails:
  "(name, param) \<in> set (params ep) \<Longrightarrow> parameterEntry rt ep (name, param) = Inl e \<Longrightarrow>
   \<exists>e'. parameterEntries rt ep = Inl e'"
  unfolding parameterEntries_def map_throwing_Inl_iff by blast

lemma startMcpServer_Inr_iff:
  assumes "\<not> opt_dynamicEndpointTools opts" and "ec_getEndpoints engine = Inr endpoints"
  shows "snd (startMcpServer rt engine opts) = Inr server \<longleftrightarrow>
           (\<forall>ep \<in> set endpoints. \<exists>entries. parameterEntries rt ep = Inr entries)
         \<and> distinct (map path (enabled_endpoints (opt_disableTools opts) endpoints))
         \<and> server = enabled_builtins (opt_toolPrefix opts) (opt_disableTools opts) @
                    endpoint_tools rt (opt_toolPrefix opts) (opt_disableTools opts) endpoints"
proof -
  let ?p = "opt_toolPrefix opts" and ?d = "opt_disableTools opts"
  have "inj (\<lambda>x. prefixed ?p (''query_'' @ x))"
    by (simp add: inj_def prefixed_inject)
  then have d: "distinct (map tool_name (endpoint_tools rt ?p ?d endpoints)) \<longleftrightarrow>
      distinct (map path (enabled_endpoints ?d endpoints))"
    using distinct_map[of "\<lambda>x. prefixed ?p (''query_'' @ x)" "map path (enabled_endpoints ?d endpoints)"]
    by (auto simp: endpoint_tools_names comp_def inj_on_def)
  show ?thesis
    using assms builtins_endpoints_disjoint[of ?p ?d rt ?d endpoints]
    by (simp add: startMcpServer_static addEndpoints_Inr_iff d)
qed

lemma startMcpServer_builtin_presence:
  assumes "snd (startMcpServer rt engine opts) = Inr final"
    and "n \<in> set (map tool_name builtin_tools)"
  shows "prefixed (opt_toolPrefix opts) n \<in> set (map tool_name final) \<longleftrightarrow>
           \<not> js_includes (opt_disableTools opts) n"
proof (cases "opt_dynamicEndpointTools opts")
  case True
  let ?p = "opt_toolPrefix opts"
  from assms(2) have "n \<noteq> ''system_get_endpoints''" "n \<noteq> ''call_endpoint''"
    using builtin_not_dynamic by auto
  then have "prefixed ?p n \<noteq> tool_name (system_get_endpoints ?p)"
            "prefixed ?p n \<noteq> tool_name (call_endpoint ?p)"
    by (simp_all add: system_get_endpoints_def call_endpoint_def prefixed_inject)
  moreover from True assms(1) have
    "final = enabled_builtins ?p (opt_disableTools opts) @ [system_get_endpoints ?p, call_endpoint ?p]"
    by (simp add: startMcpServer_dynamic)
  ultimately show ?thesis
    using enabled_builtins_member[of ?p n "opt_disableTools opts"] assms(2) by auto
next
  case False
  let ?p = "opt_toolPrefix opts" and ?d = "opt_disableTools opts"
  show ?thesis
  proof (cases "ec_getEndpoints engine")
    case (Inl e)
    with False assms(1) show ?thesis by (simp add: startMcpServer_static)
  next
    case (Inr endpoints)
    with False assms(1) have f: "final = enabled_builtins ?p ?d @ endpoint_tools rt ?p ?d endpoints"
      by (simp add: startMcpServer_Inr_iff)
    have "prefixed ?p n \<notin> set (map tool_name (endpoint_tools rt ?p ?d endpoints))"
      using builtin_not_query[OF assms(2)]
      by (auto simp: endpoint_tools_names prefixed_inject)
    with f show ?thesis
      using enabled_builtins_member[of ?p n ?d] assms(2) by auto
  qed
qed

lemma filter_not_distinct:
  assumes "i < j" and "j < length xs" and "xs ! i = xs ! j" and "P (xs ! i)"
  shows "\<not> distinct (filter P xs)"
proof -
  have xs: "xs = take j xs @ xs ! j # drop (Suc j) xs"
    using assms(2) by (rule id_take_nth_drop)
  have "xs ! i \<in> set (take j xs)"
    using assms(1,2) by (metis in_set_conv_nth length_take min.absorb2 nth_take order_less_imp_le)
  then have m: "xs ! j \<in> set (filter P (take j xs))"
    using assms(3,4) by simp
  have "filter P xs = filter P (take j xs) @ xs ! j # filter P (drop (Suc j) xs)"
    using assms(3,4) by (subst xs) simp
  with m show ?thesis by auto
qed

subsection \<open>Evaluation on the sample inputs\<close>

lemmas pkg_eval = pkg_def pkg_newFunction_def getZodSchemaFromJsonSchema_def starts_def after_def
  string_literal_def keys_within_def schema_keywords_def quote_def is_required_def parseEnum_def
  tsAnnotation_def own_properties_def

lemmas pkg_eval2 = pkg_eval zodToJsonSchema_def spread_def objectSchema_def

lemmas shape_eval = keys_are_def required_in_order_def plain_string_def tsAnnotation_def

lemma sample_endpoints_compile:
  "parameterEntries pkg (sample_endpoints ! 0) =
     Inr [(''make'', ZDescribe ZString ''The make''),
          (''limit'', ZDescribe (ZOptional ZNumber) ''How many'')]"
  "parameterEntries pkg (sample_endpoints ! 1) = Inr []"
  by (simp_all add: sample_endpoints_def parameterEntries_def parameterEntry_def pkg_eval)

lemma enabled_builtins_sample:
  "map tool_name (enabled_builtins (Some ''db'') (Some [''raw_query'', ''query_orders''])) =
     [''db_system_list_databases'', ''db_system_get_database_status'', ''db_system_get_status'',
      ''db_system_get_database_schema'', ''db_raw_readonly_query'']"
  by (simp add: enabled_builtins_def builtin_tools_def js_includes_def prefixed_def)

subsection \<open>The message endpoint\<close>

lemma post_messages_cases:
  "post_messages transports QueryUndefined = Responded 400 (JObj [(''messages'', JStr ''Invalid sessionId.'')])"
  "post_messages transports (QueryArray xs) = Responded 400 (JObj [(''messages'', JStr ''Invalid sessionId.'')])"
  "post_messages transports (QueryObject kvs) = Responded 400 (JObj [(''messages'', JStr ''Invalid sessionId.'')])"
  "map_of transports s = Some t \<Longrightarrow> post_messages transports (QueryString s) = HandlePostMessage t"
  "map_of transports s = None \<Longrightarrow> s \<notin> set object_prototype_members \<Longrightarrow>
     post_messages transports (QueryString s) = Responded 400 (JObj [(''messages'', JStr ''Invalid sessionId.'')])"
  "map_of transports s = None \<Longrightarrow> s \<in> set object_prototype_members \<Longrightarrow>
     post_messages transports (QueryString s) = ThrewTypeError ''transport.handlePostMessage is not a function''"
  by (simp_all add: post_messages_def get_property_def)

subsection \<open>The test table on the packages\<close>

lemma test_table_passes:
  "list_all (\<lambda>tc. tc_description tc = ''oneOf'' \<or> test_passes pkg tc) test_cases"
  by (simp add: test_cases_def pkg_eval2 test_passes_def)

lemma test_table_supported:
  "list_all (\<lambda>tc. tc_description tc = ''oneOf'' \<or> tc_description tc = ''object''
                 \<or> supported_shape (tc_jsonSchema tc)) test_cases"
  by (simp add: test_cases_def shape_eval)

lemma name_object_example:
  "getZodSchemaFromJsonSchema pkg
     (JObj [(''type'', JStr ''object''),
            (''properties'', JObj [(''name'', JObj [(''type'', JStr ''string'')])]),
            (''required'', JArr [JStr ''name'']),
            (''additionalProperties'', JBool False)])
     = Inr (ZObject [(''name'', ZString)] Strict)"
  "safeParse (ZObject [(''name'', ZString)] Strict) (JObj [(''name'', JStr ''Jane'')])"
  "\<not> safeParse (ZObject [(''name'', ZString)] Strict) (JObj [])"
  "\<not> safeParse (ZObject [(''name'', ZString)] Strict) (JObj [(''name'', JNum 1)])"
  "\<not> safeParse (ZObject [(''name'', ZString)] Strict)
       (JObj [(''name'', JStr ''Jane''), (''extra'', JBool True)])"
  by (simp_all add: pkg_eval2)

section \<open>The round trip of the supported shapes\<close>

text \<open>
  For a schema of a supported shape the code that json-schema-to-zod generates is known in
  closed form. The lemmas below show that the annotation text does not occur in it, that
  evaluating it gives back the schema it was written from, and that this schema converts
  to a JSON schema equal to the original.
\<close>

subsection \<open>String literals\<close>

lemma hexdigits:
  "list_all (\<lambda>n. hexval (hexdigit n) = Some n \<and> hexdigit n \<noteq> CHR ''<'') [0..<16]"
  by code_simp

lemma hexval_hexdigit: "n < 16 \<Longrightarrow> hexval (hexdigit n) = Some n"
  using hexdigits by (simp add: list_all_iff)

lemma hexdigit_not_lt: "n < 16 \<Longrightarrow> hexdigit n \<noteq> CHR ''<''"
  using hexdigits by (simp add: list_all_iff)

lemma hexval_zero: "hexval CHR ''0'' = Some 0"
  by (simp add: hexval_def)

lemma string_body_escape_char:
  "string_body (escape_char c @ t) = map_option (\<lambda>(s, r). (c # s, r)) (string_body t)"
proof (cases "(of_char c :: nat) < 32")
  case True
  have d: "(of_char c :: nat) div 16 < 16" "(of_char c :: nat) mod 16 < 16"
    using True by auto
  have u: "unicode_escape CHR ''0'' CHR ''0'' (hexdigit (of_char c div 16)) (hexdigit (of_char c mod 16))
             = Some c"
    by (simp add: unicode_escape_def hexval_zero hexval_hexdigit[OF d(1)] hexval_hexdigit[OF d(2)])
  show ?thesis
    by (simp add: u)
next
  case False
  then have "c \<noteq> CHR 0x0A" "c \<noteq> CHR 0x0D" "c \<noteq> CHR 0x08" "c \<noteq> CHR 0x09" "c \<noteq> CHR 0x0C"
    by auto
  with False show ?thesis by simp
qed

lemma string_body_escaped:
  "string_body (concat (map escape_char s) @ CHR 0x22 # r) = Some (s, r)"
  by (induction s) (simp_all add: string_body_escape_char del: escape_char.simps)

lemma string_literal_quote: "string_literal (quote s @ r) = Some (s, r)"
  using string_body_escaped[of s r] by (simp add: string_literal_def quote_def starts_def after_def)

subsection \<open>The annotation text\<close>

lemma replace_first_absent: "\<not> occurs_in pat s \<Longrightarrow> replace_first pat rep s = s"
  by (induction s) auto

lemma transparent_append: "transparent a \<Longrightarrow> transparent b \<Longrightarrow> transparent (a @ b)"
  by (simp add: transparent_def)

lemma transparent_Nil: "transparent []"
  by (simp add: transparent_def)

lemma transparent_absent: "transparent code \<Longrightarrow> \<not> occurs_in tsAnnotation code"
  unfolding transparent_def
proof -
  assume "\<forall>t. occurs_in tsAnnotation (code @ t) = occurs_in tsAnnotation t"
  then have "occurs_in tsAnnotation (code @ []) = occurs_in tsAnnotation []" by blast
  then show ?thesis by (simp add: tsAnnotation_def)
qed

lemma occurs_in_skip: "CHR ''<'' \<notin> set a \<Longrightarrow> occurs_in tsAnnotation (a @ t) = occurs_in tsAnnotation t"
  by (induction a) (auto simp: tsAnnotation_def)

lemma transparent_plain: "CHR ''<'' \<notin> set a \<Longrightarrow> transparent a"
  by (simp add: transparent_def occurs_in_skip)

lemma escape_char_no_lt: "c \<noteq> CHR ''<'' \<Longrightarrow> CHR ''<'' \<notin> set (escape_char c)"
proof (cases "(of_char c :: nat) < 32")
  case True
  then have "hexdigit (of_char c div 16) \<noteq> CHR ''<''"
    by (intro hexdigit_not_lt) auto
  moreover have "hexdigit (of_char c mod 16) \<noteq> CHR ''<''"
    by (intro hexdigit_not_lt) simp
  ultimately show "c \<noteq> CHR ''<'' \<Longrightarrow> ?thesis" by auto
next
  case False
  then show "c \<noteq> CHR ''<'' \<Longrightarrow> ?thesis" by auto
qed

lemma plain_char_facts: "plain_char c \<Longrightarrow> c \<noteq> CHR 0x22 \<and> c \<noteq> CHR 0x5C"
  by (auto simp: plain_char_def)

lemma not_plain_char: "\<not> plain_char c \<Longrightarrow> \<exists>e. escape_char c = CHR 0x5C # e"
  by (auto simp: plain_char_def split: if_splits)

lemma take_escaped:
  "list_all plain_char p \<Longrightarrow>
   (take (length p) (concat (map escape_char s) @ CHR 0x22 # t) = p) = (take (length p) s = p)"
proof (induction s arbitrary: p)
  case Nil
  then show ?case by (cases p) (auto dest: plain_char_facts)
next
  case (Cons c s)
  show ?case
  proof (cases p)
    case Nil
    then show ?thesis by simp
  next
    case (Cons x p')
    with Cons.prems have x: "plain_char x" and p': "list_all plain_char p'" by auto
    show ?thesis
    proof (cases "plain_char c")
      case True
      then have "escape_char c = [c]" by (simp add: plain_char_def)
      with Cons.IH[OF p'] show ?thesis by (simp add: Cons del: escape_char.simps)
    next
      case False
      then obtain e where e: "escape_char c = CHR 0x5C # e" using not_plain_char by blast
      from False x have "c \<noteq> x" by auto
      moreover from x have "x \<noteq> CHR 0x5C" by (auto dest: plain_char_facts)
      ultimately show ?thesis by (simp add: Cons e del: escape_char.simps)
    qed
  qed
qed

lemma tsAnnotation_plain: "list_all plain_char tsAnnotation"
  by (simp add: tsAnnotation_def plain_char_def)

lemma occurs_in_escaped:
  "occurs_in tsAnnotation (concat (map escape_char s) @ CHR 0x22 # t)
     = (occurs_in tsAnnotation s \<or> occurs_in tsAnnotation t)"
proof (induction s)
  case Nil
  then show ?case by (simp add: tsAnnotation_def)
next
  case (Cons c s)
  show ?case
  proof (cases "c = CHR ''<''")
    case True
    have "take (length tsAnnotation) (concat (map escape_char (c # s)) @ CHR 0x22 # t) = tsAnnotation
          \<longleftrightarrow> take (length tsAnnotation) (c # s) = tsAnnotation"
      by (rule take_escaped[OF tsAnnotation_plain])
    moreover have "escape_char c = [c]" using True by simp
    ultimately show ?thesis using Cons.IH by (simp del: escape_char.simps)
  next
    case False
    then have "CHR ''<'' \<notin> set (escape_char c)" by (rule escape_char_no_lt)
    then have "occurs_in tsAnnotation (escape_char c @ concat (map escape_char s) @ CHR 0x22 # t)
        = occurs_in tsAnnotation (concat (map escape_char s) @ CHR 0x22 # t)"
      by (rule occurs_in_skip)
    moreover from False have "take (length tsAnnotation) (c # s) \<noteq> tsAnnotation"
      by (auto simp: tsAnnotation_def)
    ultimately show ?thesis using Cons.IH by (simp del: escape_char.simps)
  qed
qed

lemma transparent_quote: "\<not> occurs_in tsAnnotation s \<Longrightarrow> transparent (quote s)"
  using occurs_in_escaped[of s] by (simp add: transparent_def quote_def tsAnnotation_def)

subsection \<open>Evaluating generated code\<close>

lemmas parser_simps = expression.simps postfix.simps members.simps

lemma postfix_stops: "stops rest \<Longrightarrow> postfix (f # fuel) z rest = Some (z, rest)"
  by (cases rest) (auto simp: stops_def starts_def)

lemma postfix_optional:
  "postfix (f # fuel) z (''.optional()'' @ rest) = postfix fuel (ZOptional z) rest"
  by (simp add: starts_def after_def)

lemma postfix_tail:
  assumes "tail z t z' rest" and "length t < length fuel"
  shows "postfix fuel z t = Some (z', rest)"
proof -
  from assms(2) obtain f fuel' where fuel: "fuel = f # fuel'" by (cases fuel) auto
  from assms(1) have s: "stops rest" by (simp add: tail_def)
  from assms(1) consider "t = rest" "z' = z" | "t = ''.optional()'' @ rest" "z' = ZOptional z"
    by (auto simp: tail_def)
  then show ?thesis
  proof cases
    case 1
    with s show ?thesis by (simp add: fuel postfix_stops del: parser_simps)
  next
    case 2
    with assms(2) obtain g fuel'' where fuel': "fuel' = g # fuel''"
      by (cases fuel') (auto simp: fuel)
    from s show ?thesis
      by (simp add: 2 fuel fuel' postfix_optional[unfolded append.simps] postfix_stops
          del: parser_simps)
  qed
qed

lemma tail_plain: "stops rest \<Longrightarrow> tail z rest z rest"
  by (simp add: tail_def)

lemma expression_string: "expression (f # fuel) (''z.string()'' @ t) = postfix fuel ZString t"
  by (simp add: starts_def after_def)

lemma expression_number: "expression (f # fuel) (''z.number()'' @ t) = postfix fuel ZNumber t"
  by (simp add: starts_def after_def)

lemma expression_boolean: "expression (f # fuel) (''z.boolean()'' @ t) = postfix fuel ZBoolean t"
  by (simp add: starts_def after_def)

lemma expression_any: "expression (f # fuel) (''z.any()'' @ t) = postfix fuel ZAny t"
  by (simp add: starts_def after_def)

lemma expression_array:
  "expression (f # fuel) (''z.array('' @ t) =
     (case expression fuel t of
        None \<Rightarrow> None
      | Some (z, r) \<Rightarrow> if starts '')'' r then postfix fuel (ZArray z) (after '')'' r) else None)"
  by (simp add: starts_def after_def)

lemma expression_record:
  "expression (f # fuel) (''z.record('' @ t) =
     (case expression fuel t of
        None \<Rightarrow> None
      | Some (z, r) \<Rightarrow> if starts '')'' r then postfix fuel (ZRecord ZString z) (after '')'' r) else None)"
  by (simp add: starts_def after_def)

lemma expression_enum:
  "expression (f # fuel) (''z.enum(['' @ t) =
     (case string_literals (''z.enum(['' @ t) t of
        None \<Rightarrow> None
      | Some (xs, r) \<Rightarrow> if starts ''])'' r then postfix fuel (ZEnum xs) (after ''])'' r) else None)"
  by (simp add: starts_def after_def)

lemma expression_object_empty:
  "expression (f # fuel) (''z.object({})'' @ t) = postfix fuel (ZObject [] Strip) t"
  by (simp add: starts_def after_def)

lemma expression_object:
  "expression (f # fuel) (''z.object({ '' @ t) =
     (case members fuel t of
        None \<Rightarrow> None
      | Some (shape, r) \<Rightarrow>
          if starts '' })'' r then postfix fuel (ZObject (own_properties shape) Strip) (after '' })'' r)
          else None)"
  by (simp add: starts_def after_def)

lemma postfix_strict:
  "postfix (f # fuel) (ZObject shape u) (''.strict()'' @ t) = postfix fuel (ZObject shape Strict) t"
  by (simp add: starts_def after_def)

lemma postfix_catchall:
  "postfix (f # fuel) (ZObject shape u) (''.catchall('' @ t) =
     (case expression fuel t of
        None \<Rightarrow> None
      | Some (c, r) \<Rightarrow> if starts '')'' r then postfix fuel (ZCatchall shape c) (after '')'' r) else None)"
  by (simp add: starts_def after_def)

lemmas tokens =
  postfix_optional[unfolded append.simps] expression_string[unfolded append.simps]
  expression_number[unfolded append.simps] expression_boolean[unfolded append.simps]
  expression_any[unfolded append.simps] expression_array[unfolded append.simps]
  expression_record[unfolded append.simps] expression_enum[unfolded append.simps]
  expression_object_empty[unfolded append.simps] expression_object[unfolded append.simps]
  postfix_strict[unfolded append.simps] postfix_catchall[unfolded append.simps]

lemma parses_primitive:
  "parses ''z.string()'' ZString" "parses ''z.number()'' ZNumber" "parses ''z.boolean()'' ZBoolean"
  "parses ''z.any()'' ZAny"
proof -
  have *: "\<And>code z. (\<And>(f::char) fuel t. expression (f # fuel) (code @ t) = postfix fuel z t) \<Longrightarrow>
      code \<noteq> [] \<Longrightarrow> parses code z"
  proof -
    fix code z
    assume e: "\<And>(f::char) fuel t. expression (f # fuel) (code @ t) = postfix fuel z t"
      and ne: "code \<noteq> []"
    show "parses code z"
      unfolding parses_def
    proof (intro allI impI)
      fix fuel :: string and t z' rest
      assume t: "tail z t z' rest" and l: "length (code @ t) < length fuel"
      from l obtain f fuel' where fuel: "fuel = f # fuel'" by (cases fuel) auto
      from l ne have "length t < length fuel'" by (cases code) (auto simp: fuel)
      from postfix_tail[OF t this] show "expression fuel (code @ t) = Some (z', rest)"
        by (simp add: fuel e del: parser_simps)
    qed
  qed
  show "parses ''z.string()'' ZString"
    by (rule *) (simp_all add: tokens del: parser_simps)
  show "parses ''z.number()'' ZNumber"
    by (rule *) (simp_all add: tokens del: parser_simps)
  show "parses ''z.boolean()'' ZBoolean"
    by (rule *) (simp_all add: tokens del: parser_simps)
  show "parses ''z.any()'' ZAny"
    by (rule *) (simp_all add: tokens del: parser_simps)
qed

lemma stops_paren: "stops ('')'' @ t)" "stops ('' })'' @ t)" "stops ('', '' @ t)" "stops '';''"
  by (simp_all add: stops_def)

lemma parses_wrapped:
  assumes c: "parses code z" and ne: "open_text \<noteq> []"
    and e: "\<And>(f::char) fuel t. expression (f # fuel) (open_text @ t) =
              (case expression fuel t of
                 None \<Rightarrow> None
               | Some (z, r) \<Rightarrow> if starts '')'' r then postfix fuel (wrap z) (after '')'' r) else None)"
  shows "parses (open_text @ code @ '')'') (wrap z)"
  unfolding parses_def
proof (intro allI impI)
  fix fuel :: string and t z' rest
  assume t: "tail (wrap z) t z' rest" and l: "length ((open_text @ code @ '')'') @ t) < length fuel"
  from l obtain f fuel' where fuel: "fuel = f # fuel'" by (cases fuel) auto
  from ne have "1 \<le> length open_text" by (cases open_text) auto
  with l have l1: "length (code @ '')'' @ t) < length fuel'" by (simp add: fuel)
  have "expression fuel' (code @ '')'' @ t) = Some (z, '')'' @ t)"
    using c l1 tail_plain[OF stops_paren(1), of z t] unfolding parses_def by blast
  moreover from l have "length t < length fuel'" by (simp add: fuel)
  from postfix_tail[OF t this] have "postfix fuel' (wrap z) t = Some (z', rest)" .
  ultimately show "expression fuel ((open_text @ code @ '')'') @ t) = Some (z', rest)"
    by (simp add: fuel e starts_def after_def del: parser_simps)
qed

lemma parses_array: "parses code z \<Longrightarrow> parses (''z.array('' @ code @ '')'') (ZArray z)"
  by (rule parses_wrapped[where wrap = ZArray and open_text = "''z.array(''"])
    (simp_all add: tokens del: parser_simps)

lemma parses_record: "parses code z \<Longrightarrow> parses (''z.record('' @ code @ '')'') (ZRecord ZString z)"
  by (rule parses_wrapped[where wrap = "ZRecord ZString" and open_text = "''z.record(''"])
    (simp_all add: tokens del: parser_simps)

lemma quote_length: "2 \<le> length (quote s)"
  by (simp add: quote_def)

lemma string_literals_join:
  "xs \<noteq> [] \<Longrightarrow> length (join '','' (map quote xs) @ r) \<le> length fuel \<Longrightarrow> \<not> starts '','' r \<Longrightarrow>
   string_literals fuel (join '','' (map quote xs) @ r) = Some (xs, r)"
proof (induction xs arbitrary: fuel)
  case Nil
  then show ?case by simp
next
  case (Cons x xs)
  show ?case
  proof (cases xs)
    case Nil
    from Cons.prems(2) quote_length[of x] obtain f fuel' where fuel: "fuel = f # fuel'"
      by (cases fuel) (auto simp: Nil)
    from Cons.prems(3) show ?thesis
      by (simp add: Nil fuel string_literal_quote)
  next
    case (Cons y ys)
    from Cons.prems(2) quote_length[of x] obtain f fuel' where fuel: "fuel = f # fuel'"
      by (cases fuel) (auto simp: Cons)
    have l: "length (join '','' (map quote xs) @ r) \<le> length fuel'"
      using Cons.prems(2) quote_length[of x] by (simp add: Cons fuel)
    have "string_literals fuel' (join '','' (map quote xs) @ r) = Some (xs, r)"
      by (rule Cons.IH[OF _ l Cons.prems(3)]) (simp add: Cons)
    moreover have "string_literal (quote x @ '','' @ join '','' (map quote xs) @ r)
        = Some (x, '','' @ join '','' (map quote xs) @ r)"
      by (rule string_literal_quote)
    ultimately show ?thesis
      by (simp add: Cons fuel starts_def after_def)
  qed
qed

lemma parses_enum:
  assumes "xs \<noteq> []"
  shows "parses (''z.enum(['' @ join '','' (map quote xs) @ ''])'') (ZEnum xs)"
  unfolding parses_def
proof (intro allI impI)
  fix fuel :: string and t z' rest
  assume t: "tail (ZEnum xs) t z' rest"
    and l: "length ((''z.enum(['' @ join '','' (map quote xs) @ ''])'') @ t) < length fuel"
  from l obtain f fuel' where fuel: "fuel = f # fuel'" by (cases fuel) auto
  have "string_literals (''z.enum(['' @ join '','' (map quote xs) @ ''])'' @ t)
          (join '','' (map quote xs) @ ''])'' @ t) = Some (xs, ''])'' @ t)"
    by (rule string_literals_join[OF assms]) (simp_all add: starts_def)
  moreover from l have "length t < length fuel'" by (simp add: fuel)
  from postfix_tail[OF t this] have "postfix fuel' (ZEnum xs) t = Some (z', rest)" .
  ultimately show "expression fuel ((''z.enum(['' @ join '','' (map quote xs) @ ''])'') @ t)
      = Some (z', rest)"
    using expression_enum[of f fuel' "join '','' (map quote xs) @ ''])'' @ t"]
    by (simp add: fuel starts_def after_def del: parser_simps)
qed

lemma members_join:
  fixes props :: "'a list"
  assumes "props \<noteq> []" and "\<forall>p \<in> set props. parses (c p) (zf p)"
    and "length (join '', '' (map (\<lambda>p. quote (key p) @ '': '' @ c p @
                (if req p then [] else ''.optional()'')) props) @ '' })'' @ t) < length fuel"
  shows "members (fuel :: string)
           (join '', '' (map (\<lambda>p. quote (key p) @ '': '' @ c p @
                (if req p then [] else ''.optional()'')) props) @ '' })'' @ t)
         = Some (map (\<lambda>p. (key p, if req p then zf p else ZOptional (zf p))) props, '' })'' @ t)"
  using assms
proof (induction props arbitrary: fuel)
  case Nil
  then show ?case by simp
next
  case (Cons p ps)
  let ?entry = "\<lambda>p. quote (key p) @ '': '' @ c p @ (if req p then [] else ''.optional()'')"
  let ?z = "\<lambda>p. if req p then zf p else ZOptional (zf p)"
  from Cons.prems(3) obtain f fuel' where fuel: "fuel = f # fuel'" by (cases fuel) auto
  from Cons.prems(2) have pc: "parses (c p) (zf p)" by simp
  show ?case
  proof (cases ps)
    case Nil
    have st: "stops ('' })'' @ t)" by (rule stops_paren)
    have tl: "tail (zf p) ((if req p then [] else ''.optional()'') @ '' })'' @ t) (?z p) ('' })'' @ t)"
      using st by (simp add: tail_def)
    have "length (c p @ (if req p then [] else ''.optional()'') @ '' })'' @ t) < length fuel'"
      using Cons.prems(3) by (simp add: Nil fuel)
    with pc tl have e: "expression fuel' (c p @ (if req p then [] else ''.optional()'') @ '' })'' @ t)
        = Some (?z p, '' })'' @ t)"
      unfolding parses_def by blast
    have lit: "string_literal (quote (key p) @ '': '' @ c p @ (if req p then [] else ''.optional()'')
          @ '' })'' @ t)
        = Some (key p, '': '' @ c p @ (if req p then [] else ''.optional()'') @ '' })'' @ t)"
      by (rule string_literal_quote)
    have "members (f # fuel') (quote (key p) @ '': '' @ c p @ (if req p then [] else ''.optional()'')
          @ '' })'' @ t) = Some ([(key p, ?z p)], '' })'' @ t)"
      unfolding members.simps lit using e by (simp add: starts_def after_def del: parser_simps)
    then show ?thesis by (simp add: Nil fuel del: parser_simps)
  next
    case (Cons q qs)
    let ?J = "join '', '' (map ?entry ps)"
    have st: "stops ('', '' @ ?J @ '' })'' @ t)" by (rule stops_paren)
    have tl: "tail (zf p) ((if req p then [] else ''.optional()'') @ '', '' @ ?J @ '' })'' @ t) (?z p)
        ('', '' @ ?J @ '' })'' @ t)"
      using st by (simp add: tail_def)
    have "length (c p @ (if req p then [] else ''.optional()'') @ '', '' @ ?J @ '' })'' @ t)
        < length fuel'"
      using Cons.prems(3) by (simp add: Cons fuel)
    with pc tl have e: "expression fuel' (c p @ (if req p then [] else ''.optional()'') @ '', '' @ ?J
          @ '' })'' @ t) = Some (?z p, '', '' @ ?J @ '' })'' @ t)"
      unfolding parses_def by blast
    have lit: "string_literal (quote (key p) @ '': '' @ c p @ (if req p then [] else ''.optional()'')
          @ '', '' @ ?J @ '' })'' @ t)
        = Some (key p, '': '' @ c p @ (if req p then [] else ''.optional()'') @ '', '' @ ?J
            @ '' })'' @ t)"
      by (rule string_literal_quote)
    have l: "length (?J @ '' })'' @ t) < length fuel'"
      using Cons.prems(3) by (simp add: Cons fuel)
    have ih: "members fuel' (?J @ '' })'' @ t) = Some (map (\<lambda>p. (key p, ?z p)) ps, '' })'' @ t)"
      by (rule Cons.IH[OF _ _ l]) (use Cons.prems(2) in \<open>simp_all add: Cons\<close>)
    have "members (f # fuel') (quote (key p) @ '': '' @ c p @ (if req p then [] else ''.optional()'')
          @ '', '' @ ?J @ '' })'' @ t) = Some ((key p, ?z p) # map (\<lambda>p. (key p, ?z p)) ps, '' })'' @ t)"
      unfolding members.simps lit using e ih by (simp add: starts_def after_def del: parser_simps)
    then show ?thesis by (simp add: Cons fuel del: parser_simps)
  qed
qed

lemma opens_empty: "opens ''z.object({})'' []"
  by (simp add: opens_def tokens del: parser_simps)

lemma opens_members:
  fixes props :: "'a list"
  assumes "props \<noteq> []" and "\<forall>p \<in> set props. parses (c p) (zf p)"
  shows "opens (''z.object({ '' @ join '', '' (map (\<lambda>p. quote (key p) @ '': '' @ c p @
                (if req p then [] else ''.optional()'')) props) @ '' })'')
           (own_properties (map (\<lambda>p. (key p, if req p then zf p else ZOptional (zf p))) props))"
  unfolding opens_def
proof (intro allI impI)
  fix f :: char and fuel t
  let ?J = "join '', '' (map (\<lambda>p. quote (key p) @ '': '' @ c p @
                (if req p then [] else ''.optional()'')) props)"
  let ?shape = "map (\<lambda>p. (key p, if req p then zf p else ZOptional (zf p))) props"
  assume l: "length ((''z.object({ '' @ ?J @ '' })'') @ t) < length (f # fuel)"
  then have "length (?J @ '' })'' @ t) < length fuel" by simp
  from members_join[OF assms this]
  have "members fuel (?J @ '' })'' @ t) = Some (?shape, '' })'' @ t)" .
  then show "expression (f # fuel) ((''z.object({ '' @ ?J @ '' })'') @ t)
      = postfix fuel (ZObject (own_properties ?shape) Strip) t"
    using expression_object[of f fuel "?J @ '' })'' @ t"]
    by (simp add: starts_def after_def del: parser_simps)
qed

lemma parses_strict:
  assumes "opens code shape"
  shows "parses (code @ ''.strict()'') (ZObject shape Strict)"
  unfolding parses_def
proof (intro allI impI)
  fix fuel :: string and t z' rest
  assume t: "tail (ZObject shape Strict) t z' rest"
    and l: "length ((code @ ''.strict()'') @ t) < length fuel"
  from l obtain f g fuel' where fuel: "fuel = f # g # fuel'"
    by (cases fuel; cases "tl fuel") auto
  from l have "length (code @ ''.strict()'' @ t) < length (f # g # fuel')" by (simp add: fuel)
  with assms have "expression (f # g # fuel') (code @ ''.strict()'' @ t)
      = postfix (g # fuel') (ZObject shape Strip) (''.strict()'' @ t)"
    unfolding opens_def by blast
  moreover from l have "length t < length fuel'" by (simp add: fuel)
  from postfix_tail[OF t this] have "postfix fuel' (ZObject shape Strict) t = Some (z', rest)" .
  ultimately show "expression fuel ((code @ ''.strict()'') @ t) = Some (z', rest)"
    by (simp add: fuel tokens del: parser_simps)
qed

lemma parses_catchall:
  assumes "opens code shape" and "parses ap c"
  shows "parses (code @ ''.catchall('' @ ap @ '')'') (ZCatchall shape c)"
  unfolding parses_def
proof (intro allI impI)
  fix fuel :: string and t z' rest
  assume t: "tail (ZCatchall shape c) t z' rest"
    and l: "length ((code @ ''.catchall('' @ ap @ '')'') @ t) < length fuel"
  from l obtain f g fuel' where fuel: "fuel = f # g # fuel'"
    by (cases fuel; cases "tl fuel") auto
  from l have "length (code @ ''.catchall('' @ ap @ '')'' @ t) < length (f # g # fuel')"
    by (simp add: fuel)
  with assms(1) have "expression (f # g # fuel') (code @ ''.catchall('' @ ap @ '')'' @ t)
      = postfix (g # fuel') (ZObject shape Strip) (''.catchall('' @ ap @ '')'' @ t)"
    unfolding opens_def by blast
  moreover from l have "length (ap @ '')'' @ t) < length fuel'" by (simp add: fuel)
  with assms(2) tail_plain[OF stops_paren(1), of c t]
  have "expression fuel' (ap @ '')'' @ t) = Some (c, '')'' @ t)"
    unfolding parses_def by blast
  moreover from l have "length t < length fuel'" by (simp add: fuel)
  from postfix_tail[OF t this] have "postfix fuel' (ZCatchall shape c) t = Some (z', rest)" .
  ultimately show "expression fuel ((code @ ''.catchall('' @ ap @ '')'') @ t) = Some (z', rest)"
    using postfix_catchall[of g fuel' shape Strip "ap @ '')'' @ t"]
    by (simp add: fuel starts_def after_def del: parser_simps)
qed

subsection \<open>The code generated for the supported shapes\<close>

lemma keys_are_lookup: "keys_are kvs ks \<Longrightarrow> k \<notin> set ks \<Longrightarrow> map_of kvs k = None"
  by (auto simp: keys_are_def map_of_eq_None_iff)

lemma keys_are_within: "keys_are kvs ks \<Longrightarrow> set ks \<subseteq> set allowed \<Longrightarrow> keys_within kvs allowed"
  by (auto simp: keys_are_def keys_within_def list_all_iff)

lemma keys_are_keyword:
  "keys_are kvs ks \<Longrightarrow> ''type'' \<in> set ks \<Longrightarrow>
   \<not> list_all (\<lambda>k. k \<notin> set schema_keywords) (map fst kvs)"
  by (auto simp: keys_are_def list_all_iff schema_keywords_def)

lemma keys_are_single: "keys_are kvs [k] \<Longrightarrow> map_of kvs k = Some v \<Longrightarrow> kvs = [(k, v)]"
proof -
  assume a: "keys_are kvs [k]" and m: "map_of kvs k = Some v"
  from a have d: "distinct (map fst kvs)" and s: "set (map fst kvs) = {k}"
    by (simp_all add: keys_are_def)
  from s obtain p ps where kvs: "kvs = p # ps" by (cases kvs) auto
  from d s have "ps = []"
    by (cases ps) (auto simp: kvs)
  with s m show ?thesis by (cases p) (auto simp: kvs)
qed

lemma option_map_all_Some:
  "(\<And>x. x \<in> set xs \<Longrightarrow> f x = Some (g x)) \<Longrightarrow> option_map_all f xs = Some (map g xs)"
  by (induction xs) auto

lemma parseSchema_primitive:
  assumes "keys_are kvs [''type'']" and "map_of kvs ''type'' = Some (JStr t)"
    and "t = ''string'' \<or> t = ''number'' \<or> t = ''boolean''"
  shows "parseSchema (JObj kvs) = Some (''z.'' @ t @ ''()'')"
proof -
  from keys_are_single[OF assms(1,2)] have "kvs = [(''type'', JStr t)]" .
  with assms(3) show ?thesis
    by (auto simp: schema_keywords_def keys_within_def)
qed

lemma parseSchema_array:
  assumes k: "keys_are kvs [''type'', ''items'']"
    and t: "map_of kvs ''type'' = Some (JStr ''array'')"
    and i: "map_of kvs ''items'' = Some (JObj ikvs)"
    and c: "parseSchema (JObj ikvs) = Some code"
  shows "parseSchema (JObj kvs) = Some (''z.array('' @ code @ '')'')"
proof -
  have 1: "\<not> list_all (\<lambda>k. k \<notin> set schema_keywords) (map fst kvs)"
    by (rule keys_are_keyword[OF k]) simp
  have 2: "keys_within kvs [''type'', ''items'']"
    by (rule keys_are_within[OF k]) simp
  show ?thesis
    unfolding parseSchema.simps using 1 2 t i c by simp
qed

lemma parseSchema_enum:
  assumes k: "keys_are kvs [''type'', ''enum'']"
    and t: "map_of kvs ''type'' = Some (JStr ''string'')"
    and e: "map_of kvs ''enum'' = Some (JArr (map JStr xs))"
    and l: "2 \<le> length xs"
  shows "parseSchema (JObj kvs) = Some (''z.enum(['' @ join '','' (map quote xs) @ ''])'')"
proof -
  have 1: "\<not> list_all (\<lambda>k. k \<notin> set schema_keywords) (map fst kvs)"
    by (rule keys_are_keyword[OF k]) simp
  have 2: "keys_within kvs [''type'', ''enum'']"
    by (rule keys_are_within[OF k]) simp
  have "option_map_all string_of (map JStr xs) = Some (map (\<lambda>x. x) xs)"
    by (induction xs) auto
  moreover from l obtain x y ys where "xs = x # y # ys"
    by (cases xs; cases "tl xs") auto
  ultimately have 3: "parseEnum (map JStr xs) = Some (''z.enum(['' @ join '','' (map quote xs) @ ''])'')"
    by (simp add: parseEnum_def)
  show ?thesis
    unfolding parseSchema.simps using 1 2 t e 3 by simp
qed

lemma parseSchema_record:
  assumes k: "keys_are kvs [''type'', ''additionalProperties'']"
    and t: "map_of kvs ''type'' = Some (JStr ''object'')"
    and a: "map_of kvs ''additionalProperties'' = Some additional"
    and c: "parseSchema additional = Some ap"
  shows "parseSchema (JObj kvs) = Some (''z.record('' @ ap @ '')'')"
proof -
  have 1: "\<not> list_all (\<lambda>k. k \<notin> set schema_keywords) (map fst kvs)"
    by (rule keys_are_keyword[OF k]) simp
  have 2: "keys_within kvs [''type'', ''properties'', ''required'', ''additionalProperties'']"
    by (rule keys_are_within[OF k]) simp
  have 3: "map_of kvs ''properties'' = None"
    by (rule keys_are_lookup[OF k]) simp
  show ?thesis
    unfolding parseSchema.simps using 1 2 3 t a c by simp
qed

lemma parseSchema_object:
  assumes k: "keys_are kvs ks" and ks: "''type'' \<in> set ks"
      "set ks \<subseteq> {''type'', ''properties'', ''required'', ''additionalProperties''}"
    and t: "map_of kvs ''type'' = Some (JStr ''object'')"
    and p: "map_of kvs ''properties'' = Some (JObj props)"
    and a: "map_of kvs ''additionalProperties'' = Some additional"
    and c: "parseSchema additional = Some ap"
    and m: "\<And>kv. kv \<in> set props \<Longrightarrow> parseSchema (snd kv) = Some (c kv)"
  shows "parseSchema (JObj kvs) =
           Some ((if props = [] then ''z.object({})''
                  else ''z.object({ '' @
                       join '', '' (map (\<lambda>kv. quote (fst kv) @ '': '' @ c kv @
                          (if is_required (map_of kvs ''required'') kv then [] else ''.optional()''))
                          props) @ '' })'') @
                 (if ap = ''z.never()'' then ''.strict()'' else ''.catchall('' @ ap @ '')''))"
proof -
  have 1: "\<not> list_all (\<lambda>k. k \<notin> set schema_keywords) (map fst kvs)"
    by (rule keys_are_keyword[OF k ks(1)])
  have 2: "keys_within kvs [''type'', ''properties'', ''required'', ''additionalProperties'']"
    by (rule keys_are_within[OF k]) (use ks(2) in auto)
  have 3: "option_map_all
             (\<lambda>kv. case parseSchema (snd kv) of
                     None \<Rightarrow> None
                   | Some code \<Rightarrow>
                       Some (quote (fst kv) @ '': '' @ code @
                         (if is_required (map_of kvs ''required'') kv then [] else ''.optional()'')))
             props
           = Some (map (\<lambda>kv. quote (fst kv) @ '': '' @ c kv @
                          (if is_required (map_of kvs ''required'') kv then [] else ''.optional()''))
                     props)"
    by (rule option_map_all_Some) (simp add: m)
  show ?thesis
    unfolding parseSchema.simps using 1 2 t p a c by (simp add: 3)
qed

subsection \<open>Equality of the schema that comes back\<close>

lemma toEqual_strings: "list_all2 toEqual (map JStr xs) (map JStr xs)"
  by (induction xs) auto

lemma toEqual_object:
  assumes "set (map fst kvs) \<subseteq> set (map fst out)"
    and "\<And>k j. (k, j) \<in> set out \<Longrightarrow> \<exists>v. map_of kvs k = Some v \<and> toEqual j v"
  shows "toEqual (JObj out) (JObj kvs)"
proof -
  have "list_all (\<lambda>kv. case map_of kvs (fst kv) of None \<Rightarrow> False | Some w \<Rightarrow> toEqual (snd kv) w) out"
    unfolding list_all_iff
  proof
    fix kv assume "kv \<in> set out"
    then have "(fst kv, snd kv) \<in> set out" by simp
    from assms(2)[OF this] show "case map_of kvs (fst kv) of None \<Rightarrow> False | Some w \<Rightarrow> toEqual (snd kv) w"
      by auto
  qed
  moreover have "list_all (\<lambda>k. k \<in> set (map fst out)) (map fst kvs)"
    using assms(1) by (auto simp: list_all_iff)
  ultimately show ?thesis by simp
qed

lemma toEqual_properties:
  assumes "distinct (map fst props)" and "\<And>kv. kv \<in> set props \<Longrightarrow> toEqual (jf kv) (snd kv)"
  shows "toEqual (JObj (map (\<lambda>kv. (fst kv, jf kv)) props)) (JObj props)"
proof (rule toEqual_object)
  show "set (map fst props) \<subseteq> set (map fst (map (\<lambda>kv. (fst kv, jf kv)) props))"
    by (auto simp: image_iff)
next
  fix k j assume "(k, j) \<in> set (map (\<lambda>kv. (fst kv, jf kv)) props)"
  then obtain kv where kv: "kv \<in> set props" "k = fst kv" "j = jf kv" by auto
  from assms(1) kv(1) have "map_of props (fst kv) = Some (snd kv)"
    by (metis map_of_is_SomeI prod.collapse)
  with assms(2)[OF kv(1)] show "\<exists>v. map_of props k = Some v \<and> toEqual j v"
    by (simp add: kv)
qed

subsection \<open>The supported shapes, one by one\<close>

lemma filling_any: "filling (JObj []) ''z.any()'' ZAny (JObj [])"
  by (simp add: filling_def compiles_def parses_primitive transparent_plain)

lemma filling_good: "good s code z j \<Longrightarrow> filling s code z j"
  by (simp add: filling_def good_def)

lemma good_primitive:
  "good (JObj [(''type'', JStr ''string'')]) ''z.string()'' ZString (JObj [(''type'', JStr ''string'')])"
  "good (JObj [(''type'', JStr ''number'')]) ''z.number()'' ZNumber (JObj [(''type'', JStr ''number'')])"
  "good (JObj [(''type'', JStr ''boolean'')]) ''z.boolean()'' ZBoolean (JObj [(''type'', JStr ''boolean'')])"
  by (simp_all add: good_def compiles_def parses_primitive transparent_plain schema_keywords_def
      keys_within_def)

lemma keys_are_subset: "keys_are kvs ks \<Longrightarrow> set (map fst kvs) \<subseteq> set ks"
  by (simp add: keys_are_def)

lemma good_array:
  assumes k: "keys_are kvs [''type'', ''items'']"
    and t: "map_of kvs ''type'' = Some (JStr ''array'')"
    and i: "map_of kvs ''items'' = Some (JObj ikvs)"
    and g: "good (JObj ikvs) code z j"
  shows "good (JObj kvs) (''z.array('' @ code @ '')'') (ZArray z)
           (JObj [(''type'', JStr ''array''), (''items'', j)])"
proof -
  from g have c: "parseSchema (JObj ikvs) = Some code" "transparent code" "parses code z"
      "parseDef z = Some j" "toEqual j (JObj ikvs)" "\<not> accepts_undefined z"
    by (simp_all add: good_def compiles_def)
  from c(6) have nz: "z \<noteq> ZAny" by auto
  have 1: "parseSchema (JObj kvs) = Some (''z.array('' @ code @ '')'')"
    by (rule parseSchema_array[OF k t i c(1)])
  have 2: "transparent (''z.array('' @ code @ '')'')"
    by (intro transparent_append transparent_plain c(2)) simp_all
  have 3: "parses (''z.array('' @ code @ '')'') (ZArray z)"
    by (rule parses_array[OF c(3)])
  have 4: "parseDef (ZArray z) = Some (JObj [(''type'', JStr ''array''), (''items'', j)])"
    using nz c(4) by simp
  have 5: "toEqual (JObj [(''type'', JStr ''array''), (''items'', j)]) (JObj kvs)"
    by (rule toEqual_object) (use keys_are_subset[OF k] t i c(5) in auto)
  show ?thesis
    unfolding good_def compiles_def using 1 2 3 4 5 by simp
qed

lemma good_record:
  assumes k: "keys_are kvs [''type'', ''additionalProperties'']"
    and t: "map_of kvs ''type'' = Some (JStr ''object'')"
    and a: "map_of kvs ''additionalProperties'' = Some additional"
    and g: "filling additional code z j"
  shows "good (JObj kvs) (''z.record('' @ code @ '')'') (ZRecord ZString z)
           (JObj [(''type'', JStr ''object''), (''additionalProperties'', j)])"
proof -
  from g have c: "parseSchema additional = Some code" "transparent code" "parses code z"
      "parseDef z = Some j" "toEqual j additional"
    by (simp_all add: filling_def compiles_def)
  have 1: "parseSchema (JObj kvs) = Some (''z.record('' @ code @ '')'')"
    by (rule parseSchema_record[OF k t a c(1)])
  have 2: "transparent (''z.record('' @ code @ '')'')"
    by (intro transparent_append transparent_plain c(2)) simp_all
  have 3: "parses (''z.record('' @ code @ '')'') (ZRecord ZString z)"
    by (rule parses_record[OF c(3)])
  have 4: "parseDef (ZRecord ZString z)
      = Some (JObj [(''type'', JStr ''object''), (''additionalProperties'', j)])"
    using c(4) by simp
  have 5: "toEqual (JObj [(''type'', JStr ''object''), (''additionalProperties'', j)]) (JObj kvs)"
    by (rule toEqual_object) (use keys_are_subset[OF k] t a c(5) in auto)
  show ?thesis
    unfolding good_def compiles_def using 1 2 3 4 5 by simp
qed

lemma plain_strings:
  "list_all plain_string values \<Longrightarrow>
   \<exists>xs. values = map JStr xs \<and> list_all (\<lambda>x. \<not> occurs_in tsAnnotation x) xs"
proof (induction "values")
  case Nil
  then show ?case by simp
next
  case (Cons v vs)
  then obtain xs where xs: "vs = map JStr xs" "list_all (\<lambda>x. \<not> occurs_in tsAnnotation x) xs"
    by auto
  from Cons.prems obtain x where "v = JStr x" "\<not> occurs_in tsAnnotation x"
    by (cases v) (auto simp: plain_string_def)
  with xs have "v # vs = map JStr (x # xs) \<and> list_all (\<lambda>x. \<not> occurs_in tsAnnotation x) (x # xs)"
    by simp
  then show ?case by (rule exI)
qed

lemma transparent_join:
  "(\<And>x. x \<in> set xs \<Longrightarrow> transparent x) \<Longrightarrow> transparent sep \<Longrightarrow> transparent (join sep xs)"
proof (induction sep xs rule: join.induct)
  case (1 sep)
  then show ?case by (simp add: transparent_Nil)
next
  case (2 sep x)
  then show ?case by simp
next
  case (3 sep x y ys)
  then show ?case by (auto intro!: transparent_append)
qed

lemma good_enum:
  assumes k: "keys_are kvs [''type'', ''enum'']"
    and t: "map_of kvs ''type'' = Some (JStr ''string'')"
    and e: "map_of kvs ''enum'' = Some (JArr (map JStr xs))"
    and l: "2 \<le> length xs"
    and p: "list_all (\<lambda>x. \<not> occurs_in tsAnnotation x) xs"
  shows "good (JObj kvs) (''z.enum(['' @ join '','' (map quote xs) @ ''])'') (ZEnum xs)
           (JObj [(''type'', JStr ''string''), (''enum'', JArr (map JStr xs))])"
proof -
  from l have ne: "xs \<noteq> []" by auto
  have 1: "parseSchema (JObj kvs) = Some (''z.enum(['' @ join '','' (map quote xs) @ ''])'')"
    by (rule parseSchema_enum[OF k t e l])
  have "transparent (join '','' (map quote xs))"
    by (rule transparent_join) (use p in \<open>auto simp: list_all_iff intro: transparent_quote transparent_plain\<close>)
  then have 2: "transparent (''z.enum(['' @ join '','' (map quote xs) @ ''])'')"
    by (intro transparent_append[OF transparent_plain transparent_append[OF _ transparent_plain]])
      simp_all
  have 3: "parses (''z.enum(['' @ join '','' (map quote xs) @ ''])'') (ZEnum xs)"
    by (rule parses_enum[OF ne])
  have 5: "toEqual (JObj [(''type'', JStr ''string''), (''enum'', JArr (map JStr xs))]) (JObj kvs)"
    by (rule toEqual_object) (use keys_are_subset[OF k] t e toEqual_strings in auto)
  show ?thesis
    unfolding good_def compiles_def using 1 2 3 5 by simp
qed

lemma supported_required_flag:
  "supported_shape (JObj pkvs) \<Longrightarrow> map_of pkvs ''required'' \<noteq> Some (JBool True)"
  by (auto simp: required_in_order_def keys_are_lookup
      split: if_splits option.splits json.splits)

lemma option_map_all_map: "option_map_all g (map f xs) = option_map_all (\<lambda>x. g (f x)) xs"
  by (induction xs) (auto split: option.splits)

lemma own_properties_id: "(\<And>e. e \<in> set es \<Longrightarrow> fst e \<noteq> ''__proto__'') \<Longrightarrow> own_properties es = es"
  by (simp add: own_properties_def filter_id_conv)

lemma good_object:
  assumes k: "keys_are kvs ks" and ks: "''type'' \<in> set ks"
      "set ks \<subseteq> {''type'', ''properties'', ''required'', ''additionalProperties''}"
    and t: "map_of kvs ''type'' = Some (JStr ''object'')"
    and p: "map_of kvs ''properties'' = Some (JObj props)"
    and a: "map_of kvs ''additionalProperties'' = Some additional"
    and d: "distinct (map fst props)"
    and g: "\<And>kv. kv \<in> set props \<Longrightarrow>
              fst kv \<noteq> ''__proto__'' \<and> \<not> occurs_in tsAnnotation (fst kv)
              \<and> good (snd kv) (c kv) (zf kv) (jf kv) \<and> supported_shape (snd kv)"
    and r: "map_of kvs ''required'' = None
            \<or> (\<exists>rs. map_of kvs ''required'' = Some (JArr rs) \<and> rs \<noteq> []
                    \<and> rs = map JStr (filter (\<lambda>k. JStr k \<in> set rs) (map fst props)))"
    and f: "additional = JBool False \<or> filling additional ap zc ja"
  shows "\<exists>code z j. good (JObj kvs) code z j"
proof -
  define req where "req = (\<lambda>kv. is_required (map_of kvs ''required'') kv)"
  define entry where
    "entry = (\<lambda>kv. quote (fst kv) @ '': '' @ c kv @ (if req kv then [] else ''.optional()''))"
  define S where "S = map (\<lambda>kv. (fst kv, if req kv then zf kv else ZOptional (zf kv))) props"
  define H where
    "H = (if props = [] then ''z.object({})''
          else ''z.object({ '' @ join '', '' (map entry props) @ '' })'')"
  define P where "P = map (\<lambda>kv. (fst kv, jf kv)) props"
  define R where "R = (case map_of kvs ''required'' of None \<Rightarrow> [] | Some r \<Rightarrow> [(''required'', r)])"

  have gc: "\<And>kv. kv \<in> set props \<Longrightarrow> parseSchema (snd kv) = Some (c kv)"
    and gt: "\<And>kv. kv \<in> set props \<Longrightarrow> transparent (c kv)"
    and gp: "\<And>kv. kv \<in> set props \<Longrightarrow> parses (c kv) (zf kv)"
    and gd: "\<And>kv. kv \<in> set props \<Longrightarrow> parseDef (zf kv) = Some (jf kv)"
    and ge: "\<And>kv. kv \<in> set props \<Longrightarrow> toEqual (jf kv) (snd kv)"
    and gu: "\<And>kv. kv \<in> set props \<Longrightarrow> \<not> accepts_undefined (zf kv)"
    and gw: "\<And>kv. kv \<in> set props \<Longrightarrow> unwrap (zf kv) = zf kv"
    using g by (simp_all add: good_def compiles_def)

  have own: "own_properties S = S"
    by (rule own_properties_id) (use g in \<open>auto simp: S_def\<close>)

  have opens: "opens H S"
  proof (cases "props = []")
    case True
    then show ?thesis by (simp add: H_def S_def opens_empty)
  next
    case False
    have "opens (''z.object({ '' @ join '', '' (map (\<lambda>p. quote (fst p) @ '': '' @ c p @
                (if req p then [] else ''.optional()'')) props) @ '' })'')
           (own_properties (map (\<lambda>p. (fst p, if req p then zf p else ZOptional (zf p))) props))"
      by (rule opens_members[OF False]) (use gp in blast)
    with False own show ?thesis by (simp add: H_def S_def entry_def)
  qed

  have te: "\<And>kv. kv \<in> set props \<Longrightarrow> transparent (entry kv)"
    unfolding entry_def
    by (intro transparent_append transparent_quote gt) (use g in \<open>auto intro: transparent_plain\<close>)
  have transH: "transparent H"
  proof (cases "props = []")
    case True
    then show ?thesis by (simp add: H_def transparent_plain)
  next
    case False
    have "transparent (join '', '' (map entry props))"
      by (rule transparent_join) (use te in \<open>auto intro: transparent_plain\<close>)
    then have "transparent (''z.object({ '' @ join '', '' (map entry props) @ '' })'')"
      by (intro transparent_append[OF transparent_plain transparent_append[OF _ transparent_plain]])
        simp_all
    with False show ?thesis by (simp add: H_def)
  qed

  have req_iff: "\<And>kv. kv \<in> set props \<Longrightarrow>
      req kv = (\<exists>rs. map_of kvs ''required'' = Some (JArr rs) \<and> JStr (fst kv) \<in> set rs)"
  proof -
    fix kv assume kv: "kv \<in> set props"
    from g[OF kv] have s: "supported_shape (snd kv)" by simp
    then obtain pkvs where pk: "snd kv = JObj pkvs" by (cases "snd kv") auto
    from s have "map_of pkvs ''required'' \<noteq> Some (JBool True)"
      unfolding pk by (rule supported_required_flag)
    with r show "req kv = (\<exists>rs. map_of kvs ''required'' = Some (JArr rs) \<and> JStr (fst kv) \<in> set rs)"
      by (auto simp: req_def is_required_def pk)
  qed

  have props_def: "option_map_all (\<lambda>kz. map_option (\<lambda>j. (fst kz, j)) (parseDef (unwrap (snd kz)))) S
      = Some P"
    unfolding S_def P_def option_map_all_map
    by (rule option_map_all_Some) (simp add: gw gd)

  have acc: "\<And>kv. kv \<in> set props \<Longrightarrow>
      accepts_undefined (if req kv then zf kv else ZOptional (zf kv)) = (\<not> req kv)"
    by (simp add: gu)

  have required_part:
    "(if list_all (\<lambda>kz. accepts_undefined (snd kz)) S then []
      else [(''required'',
             JArr (map (\<lambda>kz. JStr (fst kz)) (filter (\<lambda>kz. \<not> accepts_undefined (snd kz)) S)))]) = R"
  proof -
    have all: "list_all (\<lambda>kz. accepts_undefined (snd kz)) S = (\<forall>kv \<in> set props. \<not> req kv)"
      using acc by (auto simp: S_def list_all_iff)
    have names: "map (\<lambda>kz. JStr (fst kz)) (filter (\<lambda>kz. \<not> accepts_undefined (snd kz)) S)
        = map (\<lambda>kv. JStr (fst kv)) (filter req props)"
    proof -
      have "filter (\<lambda>kz. \<not> accepts_undefined (snd kz)) S
          = map (\<lambda>kv. (fst kv, if req kv then zf kv else ZOptional (zf kv))) (filter req props)"
        unfolding S_def filter_map
        by (rule arg_cong[where f = "map _"], rule filter_cong) (use acc in auto)
      then show ?thesis by (simp add: comp_def)
    qed
    from r show ?thesis
    proof
      assume n: "map_of kvs ''required'' = None"
      then have "\<forall>kv \<in> set props. \<not> req kv" using req_iff by simp
      with n show ?thesis by (simp add: all R_def)
    next
      assume "\<exists>rs. map_of kvs ''required'' = Some (JArr rs) \<and> rs \<noteq> []
                    \<and> rs = map JStr (filter (\<lambda>k. JStr k \<in> set rs) (map fst props))"
      then obtain rs where rs: "map_of kvs ''required'' = Some (JArr rs)" "rs \<noteq> []"
          "rs = map JStr (filter (\<lambda>k. JStr k \<in> set rs) (map fst props))"
        by blast
      have fr: "filter req props = filter (\<lambda>kv. JStr (fst kv) \<in> set rs) props"
        by (rule filter_cong) (use req_iff rs(1) in auto)
      have "map (\<lambda>kv. JStr (fst kv)) (filter req props)
          = map JStr (filter (\<lambda>k. JStr k \<in> set rs) (map fst props))"
        by (simp add: fr filter_map comp_def)
      with rs(3) have eq: "map (\<lambda>kv. JStr (fst kv)) (filter req props) = rs" by simp
      with rs(2) have "filter req props \<noteq> []" by auto
      then have "\<not> (\<forall>kv \<in> set props. \<not> req kv)"
        by (auto simp: filter_empty_conv)
      then show ?thesis by (simp add: all names eq R_def rs(1))
    qed
  qed

  have subset: "set (map fst kvs) \<subseteq> {''type'', ''properties'', ''required'', ''additionalProperties''}"
    using keys_are_subset[OF k] ks(2) by auto
  have equal: "\<And>ja'. (\<exists>v. map_of kvs ''additionalProperties'' = Some v \<and> toEqual ja' v) \<Longrightarrow>
      toEqual (JObj ([(''type'', JStr ''object''), (''properties'', JObj P)] @ R @
                     [(''additionalProperties'', ja')])) (JObj kvs)"
  proof (rule toEqual_object)
    fix ja'
    show "set (map fst kvs) \<subseteq> set (map fst ([(''type'', JStr ''object''), (''properties'', JObj P)] @ R @
                     [(''additionalProperties'', ja')]))"
    proof
      fix x assume x: "x \<in> set (map fst kvs)"
      with subset have "x = ''type'' \<or> x = ''properties'' \<or> x = ''required'' \<or> x = ''additionalProperties''"
        by auto
      then show "x \<in> set (map fst ([(''type'', JStr ''object''), (''properties'', JObj P)] @ R @
                     [(''additionalProperties'', ja')]))"
      proof (elim disjE)
        assume xr: "x = ''required''"
        with x have "map_of kvs ''required'' \<noteq> None" by (simp add: map_of_eq_None_iff)
        then obtain v where "map_of kvs ''required'' = Some v" by blast
        then have "R = [(''required'', v)]" by (simp add: R_def)
        then show ?thesis by (simp add: xr)
      qed simp_all
    qed
  next
    fix ja' k j
    assume e: "\<exists>v. map_of kvs ''additionalProperties'' = Some v \<and> toEqual ja' v"
      and m: "(k, j) \<in> set ([(''type'', JStr ''object''), (''properties'', JObj P)] @ R @
                     [(''additionalProperties'', ja')])"
    have pe: "toEqual (JObj P) (JObj props)"
      unfolding P_def by (rule toEqual_properties[OF d ge])
    have re: "\<And>v. map_of kvs ''required'' = Some v \<Longrightarrow> toEqual v v"
    proof -
      fix v assume v: "map_of kvs ''required'' = Some v"
      with r obtain rs xs where "v = JArr rs" "rs = map JStr xs" by auto
      then show "toEqual v v" by (simp add: toEqual_strings)
    qed
    from m consider "k = ''type''" "j = JStr ''object''" | "k = ''properties''" "j = JObj P"
      | "(k, j) \<in> set R" | "k = ''additionalProperties''" "j = ja'"
      by auto
    then show "\<exists>v. map_of kvs k = Some v \<and> toEqual j v"
    proof cases
      case 1
      with t show ?thesis by simp
    next
      case 2
      with p pe show ?thesis by simp
    next
      case 3
      then have "k = ''required''" "map_of kvs ''required'' = Some j"
        by (auto simp: R_def split: option.splits)
      with re show ?thesis by simp
    next
      case 4
      with e show ?thesis by simp
    qed
  qed

  from f show ?thesis
  proof
    assume af: "additional = JBool False"
    have code: "parseSchema (JObj kvs) = Some (H @ ''.strict()'')"
      using parseSchema_object[OF k ks t p a, of "''z.never()''" c] gc
      by (simp add: af H_def entry_def req_def)
    have "good (JObj kvs) (H @ ''.strict()'') (ZObject S Strict)
        (JObj ([(''type'', JStr ''object''), (''properties'', JObj P)] @ R @
               [(''additionalProperties'', JBool False)]))"
      unfolding good_def compiles_def
    proof (intro conjI)
      show "parseSchema (JObj kvs) = Some (H @ ''.strict()'')" by (rule code)
      show "transparent (H @ ''.strict()'')"
        by (intro transparent_append transH transparent_plain) simp
      show "parses (H @ ''.strict()'') (ZObject S Strict)"
        by (rule parses_strict[OF opens])
      show "parseDef (ZObject S Strict) = Some (JObj ([(''type'', JStr ''object''), (''properties'', JObj P)] @ R @
               [(''additionalProperties'', JBool False)]))"
        using props_def required_part by (simp add: objectSchema_def)
      show "toEqual (JObj ([(''type'', JStr ''object''), (''properties'', JObj P)] @ R @
               [(''additionalProperties'', JBool False)])) (JObj kvs)"
        by (rule equal) (simp add: a af)
      show "H @ ''.strict()'' \<noteq> ''z.never()''" by (simp add: H_def)
    qed simp_all
    then show ?thesis by blast
  next
    assume fl: "filling additional ap zc ja"
    then have c: "parseSchema additional = Some ap" "transparent ap" "parses ap zc"
        "parseDef zc = Some ja" "toEqual ja additional" "ap \<noteq> ''z.never()''" "zc \<noteq> ZNever"
      by (simp_all add: filling_def compiles_def)
    have code: "parseSchema (JObj kvs) = Some (H @ ''.catchall('' @ ap @ '')'')"
      using parseSchema_object[OF k ks t p a c(1), of c] gc c(6)
      by (simp add: H_def entry_def req_def)
    have "good (JObj kvs) (H @ ''.catchall('' @ ap @ '')'') (ZCatchall S zc)
        (JObj ([(''type'', JStr ''object''), (''properties'', JObj P)] @ R @
               [(''additionalProperties'', ja)]))"
      unfolding good_def compiles_def
    proof (intro conjI)
      show "parseSchema (JObj kvs) = Some (H @ ''.catchall('' @ ap @ '')'')" by (rule code)
      show "transparent (H @ ''.catchall('' @ ap @ '')'')"
        by (intro transparent_append transH c(2) transparent_plain) simp_all
      show "parses (H @ ''.catchall('' @ ap @ '')'') (ZCatchall S zc)"
        by (rule parses_catchall[OF opens c(3)])
      show "parseDef (ZCatchall S zc) = Some (JObj ([(''type'', JStr ''object''), (''properties'', JObj P)] @ R @
               [(''additionalProperties'', ja)]))"
        using props_def required_part c(4,7) by (simp add: objectSchema_def)
      show "toEqual (JObj ([(''type'', JStr ''object''), (''properties'', JObj P)] @ R @
               [(''additionalProperties'', ja)])) (JObj kvs)"
        by (rule equal) (simp add: a c(5))
      show "H @ ''.catchall('' @ ap @ '')'' \<noteq> ''z.never()''" by (simp add: H_def)
    qed simp_all
    then show ?thesis by blast
  qed
qed

lemma lookup_size: "map_of kvs k = Some v \<Longrightarrow> size v < size (JObj kvs)"
  by (auto dest!: map_of_size)

lemma property_size: "kv \<in> set props \<Longrightarrow> size (snd kv) < size (JObj props)"
  by (auto dest!: member_size)

lemma supported_good: "supported_shape s \<Longrightarrow> \<exists>code z j. good s code z j"
proof (induction s rule: measure_induct_rule[of size])
  case (less s)
  then obtain kvs where s: "s = JObj kvs" by (cases s) auto
  note sup = less.prems[unfolded s]
  have ih: "\<And>k v. map_of kvs k = Some v \<Longrightarrow> supported_shape v \<Longrightarrow> \<exists>code z j. good v code z j"
    using less.IH lookup_size by (simp add: s)
  have fill: "\<And>k v. map_of kvs k = Some v \<Longrightarrow> v = JObj [] \<or> supported_shape v \<Longrightarrow>
      \<exists>code z j. filling v code z j"
    using ih filling_any filling_good by blast
  show ?case
  proof (cases "map_of kvs ''type'' = Some (JStr ''object'')")
    case True
    from sup True obtain additional where a: "map_of kvs ''additionalProperties'' = Some additional"
      by (auto split: option.splits)
    show ?thesis
    proof (cases "map_of kvs ''properties''")
      case None
      from sup True a None have k: "keys_are kvs [''type'', ''additionalProperties'']"
        and o: "additional = JObj [] \<or> supported_shape additional"
        by simp_all
      from fill[OF a o] obtain ap zc ja where "filling additional ap zc ja" by blast
      from good_record[OF k True a this] show ?thesis unfolding s by blast
    next
      case (Some pj)
      from sup True a Some obtain props where pj: "pj = JObj props"
        by (cases pj) auto
      note p = Some[unfolded pj]
      from sup True a p have d: "distinct (map fst props)"
        and l: "list_all (\<lambda>kv. fst kv \<noteq> ''__proto__'' \<and> \<not> occurs_in tsAnnotation (fst kv)
                  \<and> supported_shape (snd kv)) props"
        and o: "additional = JBool False \<or> additional = JObj [] \<or> supported_shape additional"
        and rq: "case map_of kvs ''required'' of
                   None \<Rightarrow> keys_are kvs [''type'', ''properties'', ''additionalProperties'']
                 | Some required \<Rightarrow>
                     keys_are kvs [''type'', ''properties'', ''required'', ''additionalProperties'']
                     \<and> required_in_order required (map fst props)"
        by simp_all
      have "\<forall>kv \<in> set props. \<exists>r. good (snd kv) (fst r) (fst (snd r)) (snd (snd r))"
      proof
        fix kv assume kv: "kv \<in> set props"
        with l have "supported_shape (snd kv)" by (simp add: list_all_iff)
        moreover have "size (snd kv) < size s"
          using property_size[OF kv] lookup_size[OF p] by (simp add: s)
        ultimately obtain code z j where "good (snd kv) code z j" using less.IH by blast
        then have "good (snd kv) (fst (code, z, j)) (fst (snd (code, z, j))) (snd (snd (code, z, j)))"
          by simp
        then show "\<exists>r. good (snd kv) (fst r) (fst (snd r)) (snd (snd r))" by (rule exI)
      qed
      then obtain F where F: "\<forall>kv \<in> set props. good (snd kv) (fst (F kv)) (fst (snd (F kv))) (snd (snd (F kv)))"
        using bchoice[of "set props" "\<lambda>kv r. good (snd kv) (fst r) (fst (snd r)) (snd (snd r))"]
        by blast
      have g: "\<And>kv. kv \<in> set props \<Longrightarrow>
              fst kv \<noteq> ''__proto__'' \<and> \<not> occurs_in tsAnnotation (fst kv)
              \<and> good (snd kv) (fst (F kv)) (fst (snd (F kv))) (snd (snd (F kv)))
              \<and> supported_shape (snd kv)"
        using l F by (simp add: list_all_iff)
      obtain ap zc ja where f: "additional = JBool False \<or> filling additional ap zc ja"
      proof (cases "additional = JBool False")
        case True
        then show ?thesis using that by blast
      next
        case False
        with o fill[OF a] obtain ap zc ja where "filling additional ap zc ja" by blast
        then show ?thesis using that by blast
      qed
      show ?thesis
      proof (cases "map_of kvs ''required''")
        case None
        with rq have k: "keys_are kvs [''type'', ''properties'', ''additionalProperties'']" by simp
        have "\<exists>code z j. good (JObj kvs) code z j"
          by (rule good_object[OF k _ _ True p a d g _ f]) (simp_all add: None)
        then show ?thesis unfolding s .
      next
        case (Some required)
        with rq have k: "keys_are kvs [''type'', ''properties'', ''required'', ''additionalProperties'']"
          and ro: "required_in_order required (map fst props)"
          by simp_all
        from ro obtain rs where rs: "required = JArr rs" "rs \<noteq> []"
            "rs = map JStr (filter (\<lambda>k. JStr k \<in> set rs) (map fst props))"
          by (cases required) (auto simp: required_in_order_def)
        have "\<exists>code z j. good (JObj kvs) code z j"
          by (rule good_object[OF k _ _ True p a d g _ f])
            (use rs in \<open>auto simp: Some\<close>)
        then show ?thesis unfolding s .
      qed
    qed
  next
    case no: False
    show ?thesis
    proof (cases "map_of kvs ''type'' = Some (JStr ''array'')")
      case True
      from sup no True have k: "keys_are kvs [''type'', ''items'']" by simp
      from sup no True obtain items where i: "map_of kvs ''items'' = Some items"
        and si: "supported_shape items"
        by (auto split: option.splits)
      from si obtain ikvs where ik: "items = JObj ikvs" by (cases items) auto
      from ih[OF i si] obtain code z j where "good (JObj ikvs) code z j" unfolding ik by blast
      from good_array[OF k True i[unfolded ik] this] show ?thesis unfolding s by blast
    next
      case na: False
      show ?thesis
      proof (cases "map_of kvs ''type'' = Some (JStr ''string'')")
        case True
        from sup no na True consider "keys_are kvs [''type'']"
          | "keys_are kvs [''type'', ''enum'']"
            "case map_of kvs ''enum'' of
               Some (JArr values) \<Rightarrow> 2 \<le> length values \<and> list_all plain_string values
             | _ \<Rightarrow> False"
          by auto
        then show ?thesis
        proof cases
          case 1
          from keys_are_single[OF 1 True] good_primitive(1) show ?thesis unfolding s by blast
        next
          case 2
          from 2(2) obtain "values" where e: "map_of kvs ''enum'' = Some (JArr values)"
            and l: "2 \<le> length values" and pl: "list_all plain_string values"
            by (auto split: option.splits json.splits)
          from plain_strings[OF pl] obtain xs where xs: "values = map JStr xs"
            "list_all (\<lambda>x. \<not> occurs_in tsAnnotation x) xs"
            by blast
          from l have "2 \<le> length xs" by (simp add: xs(1))
          from good_enum[OF 2(1) True e[unfolded xs(1)] this xs(2)] show ?thesis
            unfolding s by blast
        qed
      next
        case ns: False
        from sup no na ns have k: "keys_are kvs [''type'']"
          and t: "map_of kvs ''type'' = Some (JStr ''number'') \<or> map_of kvs ''type'' = Some (JStr ''boolean'')"
          by simp_all
        from t show ?thesis
        proof
          assume "map_of kvs ''type'' = Some (JStr ''number'')"
          from keys_are_single[OF k this] good_primitive(2) show ?thesis unfolding s by blast
        next
          assume "map_of kvs ''type'' = Some (JStr ''boolean'')"
          from keys_are_single[OF k this] good_primitive(3) show ?thesis unfolding s by blast
        qed
      qed
    qed
  qed
qed

lemma toEqual_JObj: "toEqual j (JObj kvs) \<Longrightarrow> \<exists>out. j = JObj out"
  by (cases j) auto

lemma toEqual_keys:
  "toEqual (JObj out) (JObj kvs) \<Longrightarrow> k \<in> set (map fst out) \<Longrightarrow> k \<in> set (map fst kvs)"
proof -
  assume e: "toEqual (JObj out) (JObj kvs)" and k: "k \<in> set (map fst out)"
  from k obtain v where "(k, v) \<in> set out" by auto
  with e have "map_of kvs k \<noteq> None"
    by (auto simp: list_all_iff split: option.splits)
  then show ?thesis by (simp add: map_of_eq_None_iff)
qed

lemma toEqual_added:
  assumes e: "toEqual (JObj out) (JObj kvs)" and n: "k \<notin> set (map fst kvs)"
  shows "toEqual (JObj (out @ [(k, JStr u)])) (JObj ((k, JStr u) # kvs))"
proof (rule toEqual_object)
  from e have "set (map fst kvs) \<subseteq> set (map fst out)"
    by (auto simp: list_all_iff)
  then show "set (map fst ((k, JStr u) # kvs)) \<subseteq> set (map fst (out @ [(k, JStr u)]))"
    by auto
next
  fix k' j assume m: "(k', j) \<in> set (out @ [(k, JStr u)])"
  show "\<exists>v. map_of ((k, JStr u) # kvs) k' = Some v \<and> toEqual j v"
  proof (cases "(k', j) \<in> set out")
    case True
    then have "k' \<in> set (map fst out)" by force
    with toEqual_keys[OF e] n have "k' \<noteq> k" by blast
    moreover from e True have "\<exists>v. map_of kvs k' = Some v \<and> toEqual j v"
      by (auto simp: list_all_iff split: option.splits)
    ultimately show ?thesis by simp
  next
    case False
    with m show ?thesis by simp
  qed
qed

lemma supported_keys_are:
  assumes "supported_shape (JObj kvs)"
  shows "\<exists>ks. keys_are kvs ks
           \<and> set ks \<subseteq> {''type'', ''properties'', ''required'', ''additionalProperties'', ''items'', ''enum''}"
proof (cases "map_of kvs ''type'' = Some (JStr ''object'')")
  case True
  from assms True obtain additional where a: "map_of kvs ''additionalProperties'' = Some additional"
    by (auto split: option.splits)
  show ?thesis
  proof (cases "map_of kvs ''properties''")
    case None
    from assms True a None have "keys_are kvs [''type'', ''additionalProperties'']" by simp
    then show ?thesis by (intro exI[of _ "[''type'', ''additionalProperties'']"]) simp
  next
    case (Some pj)
    from assms True a Some obtain props where pj: "pj = JObj props" by (cases pj) auto
    show ?thesis
    proof (cases "map_of kvs ''required''")
      case None
      from assms True a Some None have "keys_are kvs [''type'', ''properties'', ''additionalProperties'']"
        by (simp add: pj)
      then show ?thesis
        by (intro exI[of _ "[''type'', ''properties'', ''additionalProperties'']"]) simp
    next
      case (Some required)
      from assms True a \<open>map_of kvs ''properties'' = Some pj\<close> Some
      have "keys_are kvs [''type'', ''properties'', ''required'', ''additionalProperties'']"
        by (simp add: pj)
      then show ?thesis
        by (intro exI[of _ "[''type'', ''properties'', ''required'', ''additionalProperties'']"]) simp
    qed
  qed
next
  case no: False
  show ?thesis
  proof (cases "map_of kvs ''type'' = Some (JStr ''array'')")
    case True
    from assms no True have "keys_are kvs [''type'', ''items'']" by simp
    then show ?thesis by (intro exI[of _ "[''type'', ''items'']"]) simp
  next
    case na: False
    show ?thesis
    proof (cases "map_of kvs ''type'' = Some (JStr ''string'')")
      case True
      from assms no na True have "keys_are kvs [''type''] \<or> keys_are kvs [''type'', ''enum'']"
        by auto
      then show ?thesis
      proof
        assume "keys_are kvs [''type'']"
        then show ?thesis by (intro exI[of _ "[''type'']"]) simp
      next
        assume "keys_are kvs [''type'', ''enum'']"
        then show ?thesis by (intro exI[of _ "[''type'', ''enum'']"]) simp
      qed
    next
      case False
      from assms no na False have "keys_are kvs [''type'']" by simp
      then show ?thesis by (intro exI[of _ "[''type'']"]) simp
    qed
  qed
qed

lemma supported_keys:
  assumes "supported_shape (JObj kvs)"
  shows "set (map fst kvs) \<subseteq> {''type'', ''properties'', ''required'', ''additionalProperties'', ''items'', ''enum''}"
proof -
  from supported_keys_are[OF assms] obtain ks where "keys_are kvs ks"
    "set ks \<subseteq> {''type'', ''properties'', ''required'', ''additionalProperties'', ''items'', ''enum''}"
    by blast
  then show ?thesis by (simp add: keys_are_def)
qed

lemma compile_good:
  assumes "good s code z j"
  shows "getZodSchemaFromJsonSchema pkg s = Inr z"
proof -
  from assms have c: "parseSchema s = Some code" "transparent code" "parses code z"
    by (simp_all add: good_def compiles_def)
  from transparent_absent[OF c(2)] have r: "replace_first tsAnnotation [] code = code"
    by (rule replace_first_absent)
  have "tail z '';'' z '';''" by (rule tail_plain) (simp add: stops_def)
  moreover have "length (code @ '';'') < length (''return '' @ code @ '';'')" by simp
  ultimately have "expression (''return '' @ code @ '';'') (code @ '';'') = Some (z, '';'')"
    using c(3) unfolding parses_def by blast
  then have "pkg_newFunction (''return '' @ code @ '';'') = Inr z"
    by (simp add: pkg_newFunction_def starts_def after_def del: parser_simps)
  with c(1) r show ?thesis
    by (simp add: getZodSchemaFromJsonSchema_def pkg_def del: parser_simps)
qed

section \<open>The claims\<close>

text \<open>
  C1, as the code has it. A parameter of an endpoint of the static registration whose
  schema is absent (or falsy) makes the registrar throw \<open>Error("No schema found for
  parameter ...")\<close>; one whose schema the transformation \<open>jsonSchemaToZod\<close> throws on makes it
  throw an error named \<open>ZodSchemaConversionError\<close> that carries the schema as
  \<open>sourceSchema\<close> and the thrown value as \<open>cause\<close>; one whose generated code throws when it
  is evaluated makes it throw that value as it is. In each case \<open>addEndpoints\<close> does not
  complete. When the compiler succeeds, what it returns is exactly the value of the
  generated code: it makes no check of its own on the validator.
\<close>

theorem schema_failure_aborts_registration:
  assumes "ep \<in> set endpoints" and "(name, param) \<in> set (params ep)"
  shows "(schema param = None \<or> (\<exists>js. schema param = Some js \<and> \<not> truthy js) \<longrightarrow>
            parameterEntry rt ep (name, param) =
              Inl (Err (new_Error (Message
                (''No schema found for parameter '' @ name @ '' in endpoint '' @ path ep) None)))
          \<and> (\<exists>e. addEndpoints rt server endpoints toolPrefix disableTools = Inl e))
       \<and> (\<forall>js cause. schema param = Some js \<and> truthy js \<and> jsonSchemaToZod rt js = Inl cause \<longrightarrow>
            (\<exists>err. parameterEntry rt ep (name, param) = Inl (Err err)
                 \<and> error_name err = ''ZodSchemaConversionError''
                 \<and> sourceSchema err = Some js \<and> error_cause err = Some cause)
          \<and> (\<exists>e. addEndpoints rt server endpoints toolPrefix disableTools = Inl e))
       \<and> (\<forall>js code e. schema param = Some js \<and> truthy js \<and> jsonSchemaToZod rt js = Inr code
             \<and> newFunction rt (''return '' @ replace_first tsAnnotation [] code @ '';'') = Inl e \<longrightarrow>
            parameterEntry rt ep (name, param) = Inl (Raised e)
          \<and> (\<exists>e. addEndpoints rt server endpoints toolPrefix disableTools = Inl e))
       \<and> (\<forall>js z. getZodSchemaFromJsonSchema rt js = Inr z \<longleftrightarrow>
            (\<exists>code. jsonSchemaToZod rt js = Inr code
                \<and> newFunction rt (''return '' @ replace_first tsAnnotation [] code @ '';'') = Inr z))"
proof -
  have fail: "\<exists>e'. addEndpoints rt server endpoints toolPrefix disableTools = Inl e'"
    if "parameterEntry rt ep (name, param) = Inl e" for e
    using parameterEntries_fails[OF assms(2) that] addEndpoints_compile_error[OF assms(1)] by blast
  have 1: "schema param = None \<or> (\<exists>js. schema param = Some js \<and> \<not> truthy js) \<longrightarrow>
            parameterEntry rt ep (name, param) =
              Inl (Err (new_Error (Message
                (''No schema found for parameter '' @ name @ '' in endpoint '' @ path ep) None)))
          \<and> (\<exists>e. addEndpoints rt server endpoints toolPrefix disableTools = Inl e)"
    using parameterEntry_no_schema[of param rt ep name] fail by metis
  have 2: "(\<exists>err. parameterEntry rt ep (name, param) = Inl (Err err)
                 \<and> error_name err = ''ZodSchemaConversionError''
                 \<and> sourceSchema err = Some js \<and> error_cause err = Some cause)
          \<and> (\<exists>e. addEndpoints rt server endpoints toolPrefix disableTools = Inl e)"
    if "schema param = Some js" "truthy js" "jsonSchemaToZod rt js = Inl cause" for js cause
  proof -
    have "parameterEntry rt ep (name, param) =
        Inl (Err ((new_Error (Message ''Failed to convert JSON schema to Zod schema: '' (Some js)))
               \<lparr> error_cause := Some cause, error_name := ''ZodSchemaConversionError'',
                 sourceSchema := Some js \<rparr>))"
      using that by (simp add: parameterEntry_def getZodSchemaFromJsonSchema_def)
    then show ?thesis using fail by (auto simp: new_Error_def)
  qed
  have 3: "parameterEntry rt ep (name, param) = Inl (Raised e)
          \<and> (\<exists>e. addEndpoints rt server endpoints toolPrefix disableTools = Inl e)"
    if "schema param = Some js" "truthy js" "jsonSchemaToZod rt js = Inr code"
      "newFunction rt (''return '' @ replace_first tsAnnotation [] code @ '';'') = Inl e" for js code e
  proof -
    have "parameterEntry rt ep (name, param) = Inl (Raised e)"
      using that by (simp add: parameterEntry_def getZodSchemaFromJsonSchema_def)
    then show ?thesis using fail by blast
  qed
  have 4: "getZodSchemaFromJsonSchema rt js = Inr z \<longleftrightarrow>
            (\<exists>code. jsonSchemaToZod rt js = Inr code
                \<and> newFunction rt (''return '' @ replace_first tsAnnotation [] code @ '';'') = Inr z)"
    for js z
    by (auto simp: getZodSchemaFromJsonSchema_def split: sum.splits)
  from 1 2 3 4 show ?thesis by blast
qed

theorem schema_failure_aborts_registration_witness:
  "parameterEntry pkg broken_endpoint
      (''id'', \<lparr> schema = None, optional = False, param_description = ''The id'' \<rparr>)
     = Inl (Err (new_Error (Message ''No schema found for parameter id in endpoint broken'' None)))
   \<and> (\<exists>e. addEndpoints pkg [] (sample_endpoints @ [broken_endpoint]) None None = Inl e)
   \<and> (\<exists>err. parameterEntry throwing_runtime (sample_endpoints ! 0)
                (''make'', \<lparr> schema = Some (JObj [(''type'', JStr ''string'')]), optional = False,
                             param_description = ''The make'' \<rparr>) = Inl (Err err)
            \<and> error_name err = ''ZodSchemaConversionError''
            \<and> sourceSchema err = Some (JObj [(''type'', JStr ''string'')]))"
proof -
  let ?id = "\<lparr> schema = None, optional = False, param_description = ''The id'' \<rparr>"
  let ?make = "\<lparr> schema = Some (JObj [(''type'', JStr ''string'')]), optional = False,
                 param_description = ''The make'' \<rparr>"
  have a1: "broken_endpoint \<in> set (sample_endpoints @ [broken_endpoint])" by simp
  have a2: "(''id'', ?id) \<in> set (params broken_endpoint)" by (simp add: broken_endpoint_def)
  note a = schema_failure_aborts_registration[OF a1 a2, where rt = pkg and server = "[]"
      and toolPrefix = None and disableTools = None, THEN conjunct1, rule_format]
  have "schema ?id = None \<or> (\<exists>js. schema ?id = Some js \<and> \<not> truthy js)" by simp
  from a[OF this] have 1: "parameterEntry pkg broken_endpoint (''id'', ?id)
     = Inl (Err (new_Error (Message ''No schema found for parameter id in endpoint broken'' None)))"
    "\<exists>e. addEndpoints pkg [] (sample_endpoints @ [broken_endpoint]) None None = Inl e"
    by (simp_all add: broken_endpoint_def)
  have b1: "sample_endpoints ! 0 \<in> set sample_endpoints" by (simp add: sample_endpoints_def)
  have b2: "(''make'', ?make) \<in> set (params (sample_endpoints ! 0))"
    by (simp add: sample_endpoints_def)
  note b = schema_failure_aborts_registration[OF b1 b2, where rt = throwing_runtime
      and server = "[]" and toolPrefix = None and disableTools = None,
      THEN conjunct2, THEN conjunct1, rule_format,
      of "JObj [(''type'', JStr ''string'')]" "()"]
  have "schema ?make = Some (JObj [(''type'', JStr ''string'')])
      \<and> truthy (JObj [(''type'', JStr ''string'')])
      \<and> jsonSchemaToZod throwing_runtime (JObj [(''type'', JStr ''string'')]) = Inl ()"
    by (simp add: throwing_runtime_def)
  from b[OF this] have 2: "\<exists>err. parameterEntry throwing_runtime (sample_endpoints ! 0)
                (''make'', ?make) = Inl (Err err)
            \<and> error_name err = ''ZodSchemaConversionError''
            \<and> sourceSchema err = Some (JObj [(''type'', JStr ''string'')])"
    by blast
  from 1 2 show ?thesis by blast
qed

text \<open>
  The claim's last part fails: of the schema \<open>{}\<close>, which has no keyword, json-schema-to-zod
  makes \<open>z.any()\<close>, and the compiler returns that validator, which accepts every value.
\<close>

theorem empty_schema_accepts_everything:
  "getZodSchemaFromJsonSchema pkg (JObj []) = Inr ZAny \<and> (\<forall>v. safeParse ZAny v)"
  by (simp add: pkg_eval)


text \<open>
  C3, as the packages have it. For every schema of a supported shape
  (\<open>supported_shape\<close>: string, number, boolean, an array of a supported shape, an enum of
  two or more strings with \<open>type: "string"\<close>, an object with \<open>additionalProperties\<close> and
  with or without declared properties of supported shapes) \<open>getZodSchemaFromJsonSchema\<close>
  returns a validator, and \<open>zodToJsonSchema\<close> converts that validator to a schema equal,
  as \<open>toEqual\<close> compares, to the original schema under an added \<open>$schema\<close> key, which
  is what the test of mcp.test.ts expects.
\<close>

theorem round_trip_of_supported_shapes:
  assumes "supported_shape jsonSchema"
  shows "\<exists>zodSchema converted.
           getZodSchemaFromJsonSchema pkg jsonSchema = Inr zodSchema
         \<and> zodToJsonSchema zodSchema = Some converted
         \<and> toEqual converted
             (JObj ((''$schema'', JStr ''http://json-schema.org/draft-07/schema#'') # spread jsonSchema))"
proof -
  from assms obtain kvs where s: "jsonSchema = JObj kvs" by (cases jsonSchema) auto
  from supported_good[OF assms] obtain code z j where g: "good jsonSchema code z j" by blast
  then have d: "parseDef z = Some j" and e: "toEqual j (JObj kvs)"
    by (simp_all add: good_def compiles_def s)
  from toEqual_JObj[OF e] obtain out where j: "j = JObj out" by blast
  from supported_keys[OF assms[unfolded s]] have "''$schema'' \<notin> set (map fst kvs)" by auto
  from toEqual_added[OF e[unfolded j] this]
  have "toEqual (JObj (out @ [(''$schema'', JStr ''http://json-schema.org/draft-07/schema#'')]))
          (JObj ((''$schema'', JStr ''http://json-schema.org/draft-07/schema#'') # spread jsonSchema))"
    by (simp add: s spread_def)
  moreover have "zodToJsonSchema z
      = Some (JObj (out @ [(''$schema'', JStr ''http://json-schema.org/draft-07/schema#'')]))"
    by (simp add: zodToJsonSchema_def d j)
  ultimately show ?thesis using compile_good[OF g] by blast
qed

theorem round_trip_of_supported_shapes_witness:
  "supported_shape
     (JObj [(''type'', JStr ''object''),
            (''properties'',
             JObj [(''name'', JObj [(''type'', JStr ''string'')]),
                   (''tags'', JObj [(''type'', JStr ''array''),
                                    (''items'', JObj [(''type'', JStr ''string''),
                                                      (''enum'', JArr [JStr ''a'', JStr ''b''])])]),
                   (''sizes'', JObj [(''type'', JStr ''object''),
                                     (''additionalProperties'', JObj [(''type'', JStr ''number'')])])]),
            (''required'', JArr [JStr ''name'', JStr ''tags'']),
            (''additionalProperties'', JBool False)])
   \<and> (\<exists>zodSchema converted.
         getZodSchemaFromJsonSchema pkg
           (JObj [(''type'', JStr ''object''),
                  (''properties'',
                   JObj [(''name'', JObj [(''type'', JStr ''string'')]),
                         (''tags'', JObj [(''type'', JStr ''array''),
                                          (''items'', JObj [(''type'', JStr ''string''),
                                                            (''enum'', JArr [JStr ''a'', JStr ''b''])])]),
                         (''sizes'', JObj [(''type'', JStr ''object''),
                                           (''additionalProperties'', JObj [(''type'', JStr ''number'')])])]),
                  (''required'', JArr [JStr ''name'', JStr ''tags'']),
                  (''additionalProperties'', JBool False)]) = Inr zodSchema
       \<and> zodToJsonSchema zodSchema = Some converted
       \<and> toEqual converted
           (JObj [(''$schema'', JStr ''http://json-schema.org/draft-07/schema#''),
                  (''type'', JStr ''object''),
                  (''properties'',
                   JObj [(''name'', JObj [(''type'', JStr ''string'')]),
                         (''tags'', JObj [(''type'', JStr ''array''),
                                          (''items'', JObj [(''type'', JStr ''string''),
                                                            (''enum'', JArr [JStr ''a'', JStr ''b''])])]),
                         (''sizes'', JObj [(''type'', JStr ''object''),
                                           (''additionalProperties'', JObj [(''type'', JStr ''number'')])])]),
                  (''required'', JArr [JStr ''name'', JStr ''tags'']),
                  (''additionalProperties'', JBool False)]))"
proof -
  have s: "supported_shape
     (JObj [(''type'', JStr ''object''),
            (''properties'',
             JObj [(''name'', JObj [(''type'', JStr ''string'')]),
                   (''tags'', JObj [(''type'', JStr ''array''),
                                    (''items'', JObj [(''type'', JStr ''string''),
                                                      (''enum'', JArr [JStr ''a'', JStr ''b''])])]),
                   (''sizes'', JObj [(''type'', JStr ''object''),
                                     (''additionalProperties'', JObj [(''type'', JStr ''number'')])])]),
            (''required'', JArr [JStr ''name'', JStr ''tags'']),
            (''additionalProperties'', JBool False)])"
    by (simp add: shape_eval)
  from round_trip_of_supported_shapes[OF s] s show ?thesis
    by (simp add: spread_def)
qed

text \<open>
  The claim fails, as stated, for schemas of the shapes it names. An object schema without
  \<open>additionalProperties\<close> comes back with \<open>additionalProperties: {}\<close> when it declares no
  properties (which is what mcp.test.ts expects of \<open>{type: "object"}\<close>) and with
  \<open>additionalProperties: false\<close> when it declares some; \<open>additionalProperties: false\<close>
  without properties comes back as \<open>{not: {}}\<close>, and \<open>additionalProperties: true\<close> as
  \<open>{}\<close>; an empty \<open>required\<close> is dropped, and \<open>required\<close> comes back in the order of the
  properties; a property named \<open>__proto__\<close> is lost; an enum of one value comes back as
  \<open>const\<close>, an enum without \<open>type\<close> comes back with \<open>type: "string"\<close>, and an enum value
  \<open><z.ZodError[]>\<close> comes back empty.
\<close>

theorem round_trip_not_exact:
  "getZodSchemaFromJsonSchema pkg
       (JObj [(''type'', JStr ''object'')])
     = Inr (ZRecord ZString ZAny)
   \<and> zodToJsonSchema (ZRecord ZString ZAny)
     = Some (JObj [(''type'', JStr ''object''), (''additionalProperties'', JObj []),
                  (''$schema'', JStr ''http://json-schema.org/draft-07/schema#'')])
   \<and> \<not> toEqual
         (JObj [(''type'', JStr ''object''), (''additionalProperties'', JObj []),
               (''$schema'', JStr ''http://json-schema.org/draft-07/schema#'')])
         (JObj [(''$schema'', JStr ''http://json-schema.org/draft-07/schema#''),
               (''type'', JStr ''object'')])
   \<and> getZodSchemaFromJsonSchema pkg
       (JObj [(''type'', JStr ''object''), (''additionalProperties'', JBool False)])
     = Inr (ZRecord ZString ZNever)
   \<and> zodToJsonSchema (ZRecord ZString ZNever)
     = Some (JObj [(''type'', JStr ''object''),
                  (''additionalProperties'', JObj [(''not'', JObj [])]),
                  (''$schema'', JStr ''http://json-schema.org/draft-07/schema#'')])
   \<and> \<not> toEqual
         (JObj [(''type'', JStr ''object''),
               (''additionalProperties'', JObj [(''not'', JObj [])]),
               (''$schema'', JStr ''http://json-schema.org/draft-07/schema#'')])
         (JObj [(''$schema'', JStr ''http://json-schema.org/draft-07/schema#''),
               (''type'', JStr ''object''), (''additionalProperties'', JBool False)])
   \<and> getZodSchemaFromJsonSchema pkg
       (JObj [(''type'', JStr ''object''),
             (''properties'', JObj [(''name'', JObj [(''type'', JStr ''string'')])])])
     = Inr (ZObject [(''name'', ZOptional ZString)] Strip)
   \<and> zodToJsonSchema (ZObject [(''name'', ZOptional ZString)] Strip)
     = Some (JObj [(''type'', JStr ''object''),
                  (''properties'', JObj [(''name'', JObj [(''type'', JStr ''string'')])]),
                  (''additionalProperties'', JBool False),
                  (''$schema'', JStr ''http://json-schema.org/draft-07/schema#'')])
   \<and> \<not> toEqual
         (JObj [(''type'', JStr ''object''),
               (''properties'', JObj [(''name'', JObj [(''type'', JStr ''string'')])]),
               (''additionalProperties'', JBool False),
               (''$schema'', JStr ''http://json-schema.org/draft-07/schema#'')])
         (JObj [(''$schema'', JStr ''http://json-schema.org/draft-07/schema#''),
               (''type'', JStr ''object''),
               (''properties'', JObj [(''name'', JObj [(''type'', JStr ''string'')])])])
   \<and> getZodSchemaFromJsonSchema pkg
       (JObj [(''type'', JStr ''object''),
             (''properties'', JObj [(''name'', JObj [(''type'', JStr ''string'')])]),
             (''additionalProperties'', JBool True)])
     = Inr (ZCatchall [(''name'', ZOptional ZString)] ZAny)
   \<and> zodToJsonSchema (ZCatchall [(''name'', ZOptional ZString)] ZAny)
     = Some (JObj [(''type'', JStr ''object''),
                  (''properties'', JObj [(''name'', JObj [(''type'', JStr ''string'')])]),
                  (''additionalProperties'', JObj []),
                  (''$schema'', JStr ''http://json-schema.org/draft-07/schema#'')])
   \<and> \<not> toEqual
         (JObj [(''type'', JStr ''object''),
               (''properties'', JObj [(''name'', JObj [(''type'', JStr ''string'')])]),
               (''additionalProperties'', JObj []),
               (''$schema'', JStr ''http://json-schema.org/draft-07/schema#'')])
         (JObj [(''$schema'', JStr ''http://json-schema.org/draft-07/schema#''),
               (''type'', JStr ''object''),
               (''properties'', JObj [(''name'', JObj [(''type'', JStr ''string'')])]),
               (''additionalProperties'', JBool True)])
   \<and> getZodSchemaFromJsonSchema pkg
       (JObj [(''type'', JStr ''object''),
             (''properties'', JObj [(''name'', JObj [(''type'', JStr ''string'')])]),
             (''required'', JArr []), (''additionalProperties'', JBool False)])
     = Inr (ZObject [(''name'', ZOptional ZString)] Strict)
   \<and> zodToJsonSchema (ZObject [(''name'', ZOptional ZString)] Strict)
     = Some (JObj [(''type'', JStr ''object''),
                  (''properties'', JObj [(''name'', JObj [(''type'', JStr ''string'')])]),
                  (''additionalProperties'', JBool False),
                  (''$schema'', JStr ''http://json-schema.org/draft-07/schema#'')])
   \<and> \<not> toEqual
         (JObj [(''type'', JStr ''object''),
               (''properties'', JObj [(''name'', JObj [(''type'', JStr ''string'')])]),
               (''additionalProperties'', JBool False),
               (''$schema'', JStr ''http://json-schema.org/draft-07/schema#'')])
         (JObj [(''$schema'', JStr ''http://json-schema.org/draft-07/schema#''),
               (''type'', JStr ''object''),
               (''properties'', JObj [(''name'', JObj [(''type'', JStr ''string'')])]),
               (''required'', JArr []), (''additionalProperties'', JBool False)])
   \<and> getZodSchemaFromJsonSchema pkg
       (JObj [(''type'', JStr ''object''),
             (''properties'', JObj [(''a'', JObj [(''type'', JStr ''string'')]),
             (''b'', JObj [(''type'', JStr ''string'')])]),
             (''required'', JArr [JStr ''b'', JStr ''a'']), (''additionalProperties'', JBool False)])
     = Inr (ZObject [(''a'', ZString), (''b'', ZString)] Strict)
   \<and> zodToJsonSchema (ZObject [(''a'', ZString), (''b'', ZString)] Strict)
     = Some (JObj [(''type'', JStr ''object''),
                  (''properties'', JObj [(''a'', JObj [(''type'', JStr ''string'')]),
                  (''b'', JObj [(''type'', JStr ''string'')])]),
                  (''required'', JArr [JStr ''a'', JStr ''b'']),
                  (''additionalProperties'', JBool False),
                  (''$schema'', JStr ''http://json-schema.org/draft-07/schema#'')])
   \<and> \<not> toEqual
         (JObj [(''type'', JStr ''object''),
               (''properties'', JObj [(''a'', JObj [(''type'', JStr ''string'')]),
               (''b'', JObj [(''type'', JStr ''string'')])]),
               (''required'', JArr [JStr ''a'', JStr ''b'']), (''additionalProperties'', JBool False),
               (''$schema'', JStr ''http://json-schema.org/draft-07/schema#'')])
         (JObj [(''$schema'', JStr ''http://json-schema.org/draft-07/schema#''),
               (''type'', JStr ''object''),
               (''properties'', JObj [(''a'', JObj [(''type'', JStr ''string'')]),
               (''b'', JObj [(''type'', JStr ''string'')])]),
               (''required'', JArr [JStr ''b'', JStr ''a'']), (''additionalProperties'', JBool False)])
   \<and> getZodSchemaFromJsonSchema pkg
       (JObj [(''type'', JStr ''object''),
             (''properties'', JObj [(''__proto__'', JObj [(''type'', JStr ''string'')])]),
             (''additionalProperties'', JBool False)])
     = Inr (ZObject [] Strict)
   \<and> zodToJsonSchema (ZObject [] Strict)
     = Some (JObj [(''type'', JStr ''object''), (''properties'', JObj []),
                  (''additionalProperties'', JBool False),
                  (''$schema'', JStr ''http://json-schema.org/draft-07/schema#'')])
   \<and> \<not> toEqual
         (JObj [(''type'', JStr ''object''), (''properties'', JObj []),
               (''additionalProperties'', JBool False),
               (''$schema'', JStr ''http://json-schema.org/draft-07/schema#'')])
         (JObj [(''$schema'', JStr ''http://json-schema.org/draft-07/schema#''),
               (''type'', JStr ''object''),
               (''properties'', JObj [(''__proto__'', JObj [(''type'', JStr ''string'')])]),
               (''additionalProperties'', JBool False)])
   \<and> getZodSchemaFromJsonSchema pkg
       (JObj [(''type'', JStr ''string''), (''enum'', JArr [JStr ''a''])])
     = Inr (ZLiteral (JStr ''a''))
   \<and> zodToJsonSchema (ZLiteral (JStr ''a''))
     = Some (JObj [(''type'', JStr ''string''), (''const'', JStr ''a''),
                  (''$schema'', JStr ''http://json-schema.org/draft-07/schema#'')])
   \<and> \<not> toEqual
         (JObj [(''type'', JStr ''string''), (''const'', JStr ''a''),
               (''$schema'', JStr ''http://json-schema.org/draft-07/schema#'')])
         (JObj [(''$schema'', JStr ''http://json-schema.org/draft-07/schema#''),
               (''type'', JStr ''string''), (''enum'', JArr [JStr ''a''])])
   \<and> getZodSchemaFromJsonSchema pkg
       (JObj [(''enum'', JArr [JStr ''a'', JStr ''b''])])
     = Inr (ZEnum [''a'', ''b''])
   \<and> zodToJsonSchema (ZEnum [''a'', ''b''])
     = Some (JObj [(''type'', JStr ''string''), (''enum'', JArr [JStr ''a'', JStr ''b'']),
                  (''$schema'', JStr ''http://json-schema.org/draft-07/schema#'')])
   \<and> \<not> toEqual
         (JObj [(''type'', JStr ''string''), (''enum'', JArr [JStr ''a'', JStr ''b'']),
               (''$schema'', JStr ''http://json-schema.org/draft-07/schema#'')])
         (JObj [(''$schema'', JStr ''http://json-schema.org/draft-07/schema#''),
               (''enum'', JArr [JStr ''a'', JStr ''b''])])
   \<and> getZodSchemaFromJsonSchema pkg
       (JObj [(''type'', JStr ''string''),
             (''enum'', JArr [JStr ''<z.ZodError[]>'', JStr ''b''])])
     = Inr (ZEnum ['''', ''b''])
   \<and> zodToJsonSchema (ZEnum ['''', ''b''])
     = Some (JObj [(''type'', JStr ''string''), (''enum'', JArr [JStr '''', JStr ''b'']),
                  (''$schema'', JStr ''http://json-schema.org/draft-07/schema#'')])
   \<and> \<not> toEqual
         (JObj [(''type'', JStr ''string''), (''enum'', JArr [JStr '''', JStr ''b'']),
               (''$schema'', JStr ''http://json-schema.org/draft-07/schema#'')])
         (JObj [(''$schema'', JStr ''http://json-schema.org/draft-07/schema#''),
               (''type'', JStr ''string''), (''enum'', JArr [JStr ''<z.ZodError[]>'', JStr ''b''])])"
  by (simp add: pkg_eval2)

text \<open>
  C4 fails on the code for an enum schema one of whose values holds the text
  \<open><z.ZodError[]>\<close>: the code generated for
  \<open>{type: "string", enum: ["<z.ZodError[]>", "b"]}\<close> has that text in a string literal,
  \<open>getZodSchemaFromJsonSchema\<close> removes it as if it were a TypeScript annotation, and the
  compiled validator rejects the value \<open><z.ZodError[]>\<close>, which the schema declares valid,
  and accepts the empty string, which it does not.
\<close>

theorem annotation_text_in_enum_is_stripped:
  "parseSchema (JObj [(''type'', JStr ''string''),
                      (''enum'', JArr [JStr ''<z.ZodError[]>'', JStr ''b''])])
     = Some ''z.enum([\"<z.ZodError[]>\",\"b\"])''
   \<and> replace_first tsAnnotation [] ''z.enum([\"<z.ZodError[]>\",\"b\"])'' = ''z.enum([\"\",\"b\"])''
   \<and> getZodSchemaFromJsonSchema pkg
        (JObj [(''type'', JStr ''string''),
               (''enum'', JArr [JStr ''<z.ZodError[]>'', JStr ''b''])])
       = Inr (ZEnum ['''', ''b''])
   \<and> \<not> safeParse (ZEnum ['''', ''b'']) (JStr ''<z.ZodError[]>'')
   \<and> safeParse (ZEnum ['''', ''b'']) (JStr '''')"
  by (simp add: pkg_eval2)

text \<open>
  C5. In dynamic endpoint mode \<open>startMcpServer\<close> registers, after the built-in tools that
  are not disabled, the two tools \<open>system_get_endpoints\<close> (which returns the endpoint
  metadata) and \<open>call_endpoint\<close> (with the parameters \<open>path\<close>, \<open>requestMethod\<close> and
  \<open>parameters\<close>, a record of strings, numbers and booleans), calls \<open>getEndpoints\<close> not at
  all and registers no tool of an endpoint. Otherwise it calls \<open>getEndpoints\<close> once, and
  when it returns normally (which it does exactly when every endpoint's parameters compile
  and the endpoints left by the disable-list have distinct paths) it has registered, after
  the built-in tools, one tool for every endpoint whose name \<open>query_<path>\<close> is not in the
  disable-list, in their order: its name is \<open>query_<path>\<close> behind the prefix, and its
  handler calls \<open>executeRequest\<close> with the endpoint's path and request method and the
  arguments of the call.
\<close>

theorem startMcpServer_endpoint_tools:
  "(opt_dynamicEndpointTools opts \<longrightarrow>
      startMcpServer rt engine opts =
        (0, Inr (enabled_builtins (opt_toolPrefix opts) (opt_disableTools opts) @
                 [system_get_endpoints (opt_toolPrefix opts), call_endpoint (opt_toolPrefix opts)])))
   \<and> (\<not> opt_dynamicEndpointTools opts \<and> ec_getEndpoints engine = Inr endpoints \<longrightarrow>
        fst (startMcpServer rt engine opts) = 1
      \<and> (\<forall>server. snd (startMcpServer rt engine opts) = Inr server \<longleftrightarrow>
             (\<forall>ep \<in> set endpoints. \<exists>entries. parameterEntries rt ep = Inr entries)
           \<and> distinct (map path (enabled_endpoints (opt_disableTools opts) endpoints))
           \<and> server = enabled_builtins (opt_toolPrefix opts) (opt_disableTools opts) @
                      endpoint_tools rt (opt_toolPrefix opts) (opt_disableTools opts) endpoints))
   \<and> map tool_name (endpoint_tools rt (opt_toolPrefix opts) (opt_disableTools opts) endpoints)
        = map (\<lambda>ep. prefixed (opt_toolPrefix opts) (''query_'' @ path ep))
            (enabled_endpoints (opt_disableTools opts) endpoints)
   \<and> map tool_callback (endpoint_tools rt (opt_toolPrefix opts) (opt_disableTools opts) endpoints)
        = map (\<lambda>ep. DefinedQuery (path ep) (requestMethod ep))
            (enabled_endpoints (opt_disableTools opts) endpoints)
   \<and> runCallback engine (DefinedQuery p m) (ParameterArgs args)
        = Some (map_sum id Json (ec_executeRequest engine
            \<lparr> req_path = p, req_requestMethod = m, req_parameters = args \<rparr>))
   \<and> tool_name (system_get_endpoints (opt_toolPrefix opts))
        = prefixed (opt_toolPrefix opts) ''system_get_endpoints''
   \<and> runCallback engine (tool_callback (system_get_endpoints (opt_toolPrefix opts))) NoArgs
        = Some (map_sum id Endpoints (ec_getEndpoints engine))
   \<and> tool_name (call_endpoint (opt_toolPrefix opts)) = prefixed (opt_toolPrefix opts) ''call_endpoint''
   \<and> tool_schema (call_endpoint (opt_toolPrefix opts))
        = Some [(''path'', ZString), (''requestMethod'', ZString),
                (''parameters'', ZRecord ZString (ZUnion [ZString, ZNumber, ZBoolean]))]
   \<and> runCallback engine (tool_callback (call_endpoint (opt_toolPrefix opts))) (EndpointArgs p m args)
        = Some (map_sum id Json (ec_executeRequest engine
            \<lparr> req_path = p, req_requestMethod = m, req_parameters = args \<rparr>))"
proof -
  have dyn: "opt_dynamicEndpointTools opts \<longrightarrow>
      startMcpServer rt engine opts =
        (0, Inr (enabled_builtins (opt_toolPrefix opts) (opt_disableTools opts) @
                 [system_get_endpoints (opt_toolPrefix opts), call_endpoint (opt_toolPrefix opts)]))"
    by (simp add: startMcpServer_dynamic)
  have stat: "\<not> opt_dynamicEndpointTools opts \<and> ec_getEndpoints engine = Inr endpoints \<longrightarrow>
        fst (startMcpServer rt engine opts) = 1
      \<and> (\<forall>server. snd (startMcpServer rt engine opts) = Inr server \<longleftrightarrow>
             (\<forall>ep \<in> set endpoints. \<exists>entries. parameterEntries rt ep = Inr entries)
           \<and> distinct (map path (enabled_endpoints (opt_disableTools opts) endpoints))
           \<and> server = enabled_builtins (opt_toolPrefix opts) (opt_disableTools opts) @
                      endpoint_tools rt (opt_toolPrefix opts) (opt_disableTools opts) endpoints)"
    using startMcpServer_Inr_iff[of opts engine endpoints rt]
    by (simp add: startMcpServer_static)
  have cb: "map tool_callback (endpoint_tools rt (opt_toolPrefix opts) (opt_disableTools opts) endpoints)
        = map (\<lambda>ep. DefinedQuery (path ep) (requestMethod ep))
            (enabled_endpoints (opt_disableTools opts) endpoints)"
    by (simp add: endpoint_tools_def endpoint_tool_def comp_def)
  show ?thesis
    using dyn stat cb
    by (simp add: endpoint_tools_names system_get_endpoints_def call_endpoint_def)
qed

theorem startMcpServer_endpoint_tools_witness:
  "fst (startMcpServer pkg (sample_engine sample_endpoints)
          (sample_options False [''raw_query'', ''query_orders''])) = 1
   \<and> (\<exists>server.
         snd (startMcpServer pkg (sample_engine sample_endpoints)
                (sample_options False [''raw_query'', ''query_orders''])) = Inr server
       \<and> map tool_name server =
           [''db_system_list_databases'', ''db_system_get_database_status'', ''db_system_get_status'',
            ''db_system_get_database_schema'', ''db_raw_readonly_query'', ''db_query_cars'']
       \<and> tool_callback (last server) = DefinedQuery ''cars'' ''GET'')
   \<and> (\<exists>server.
         startMcpServer pkg (sample_engine sample_endpoints)
            (sample_options True [''raw_query'', ''query_orders'']) = (0, Inr server)
       \<and> map tool_name server =
           [''db_system_list_databases'', ''db_system_get_database_status'', ''db_system_get_status'',
            ''db_system_get_database_schema'', ''db_raw_readonly_query'',
            ''db_system_get_endpoints'', ''db_call_endpoint''])"
proof -
  let ?d = "[''raw_query'', ''query_orders'']"
  let ?e = "sample_engine sample_endpoints"
  have c: "\<forall>ep \<in> set sample_endpoints. \<exists>entries. parameterEntries pkg ep = Inr entries"
    using sample_endpoints_compile by (simp add: sample_endpoints_def)
  have en: "enabled_endpoints (Some ?d) sample_endpoints = [sample_endpoints ! 0]"
    by (simp add: enabled_endpoints_def sample_endpoints_def js_includes_def)
  have p: "path (sample_endpoints ! 0) = ''cars''" "requestMethod (sample_endpoints ! 0) = ''GET''"
    by (simp_all add: sample_endpoints_def)
  note t1 = startMcpServer_endpoint_tools[of "sample_options False ?d" pkg ?e sample_endpoints]
  note t2 = startMcpServer_endpoint_tools[of "sample_options True ?d" pkg ?e sample_endpoints]
  from t1 c have s:
    "fst (startMcpServer pkg ?e (sample_options False ?d)) = 1"
    "snd (startMcpServer pkg ?e (sample_options False ?d)) =
       Inr (enabled_builtins (Some ''db'') (Some ?d) @ endpoint_tools pkg (Some ''db'') (Some ?d) sample_endpoints)"
    by (simp_all add: sample_options_def sample_engine_def en)
  from t1 have n: "map tool_name (endpoint_tools pkg (Some ''db'') (Some ?d) sample_endpoints) = [''db_query_cars'']"
    "map tool_callback (endpoint_tools pkg (Some ''db'') (Some ?d) sample_endpoints) = [DefinedQuery ''cars'' ''GET'']"
    by (simp_all add: sample_options_def en p prefixed_def)
  then have l: "tool_callback (last (enabled_builtins (Some ''db'') (Some ?d) @
        endpoint_tools pkg (Some ''db'') (Some ?d) sample_endpoints)) = DefinedQuery ''cars'' ''GET''"
    by (cases "endpoint_tools pkg (Some ''db'') (Some ?d) sample_endpoints") auto
  from t2 have dy: "startMcpServer pkg ?e (sample_options True ?d) =
      (0, Inr (enabled_builtins (Some ''db'') (Some ?d) @
               [system_get_endpoints (Some ''db''), call_endpoint (Some ''db'')]))"
    by (simp add: sample_options_def)
  show ?thesis
    using s n l dy enabled_builtins_sample
    by (simp add: system_get_endpoints_def call_endpoint_def prefixed_def)
qed

text \<open>
  C6, as the code has it. \<open>handleError\<close> turns an \<open>AxiosError\<close> into one \<open>EngineCallError\<close>:
  its message names the method and the URL of the request (\<open>unknown\<close> where the error has
  no config), its status and headers are those of the response (absent without a
  response), and its \<open>error\<close> is the data of the response as axios gives them, whatever
  their type, replaced by the empty object only when there is no response or the data are
  \<open>undefined\<close> or \<open>null\<close>. Any other thrown value propagates as it is. Every operation of
  the client passes a rejection of the generated client through \<open>handleError\<close>.
\<close>

theorem handleError_taxonomy:
  "(\<exists>err. handleError (AxiosError e) = Engine err
        \<and> ece_name err = ''EngineCallError''
        \<and> ece_message err =
            ''Error calling '' @
              (case config e of None \<Rightarrow> ''unknown''
               | Some c \<Rightarrow> (case config_method c of None \<Rightarrow> ''unknown'' | Some m \<Rightarrow> m)) @ '' '' @
              (case config e of None \<Rightarrow> ''unknown''
               | Some c \<Rightarrow> (case config_url c of None \<Rightarrow> ''unknown'' | Some u \<Rightarrow> u))
        \<and> ece_status err = map_option response_status (response e)
        \<and> ece_headers err = map_option response_headers (response e)
        \<and> ece_error err =
            (case response e of
               None \<Rightarrow> JObj []
             | Some r \<Rightarrow> (case response_data r of None \<Rightarrow> JObj [] | Some JNull \<Rightarrow> JObj []
                          | Some body \<Rightarrow> body)))
   \<and> handleError (NotAxios x) = Propagated x
   \<and> ec_executeRequest (createEngineClient numberToString base) args =
        (case (if req_requestMethod args = ''GET''
               then executeEndpointOnGet base (req_path args)
                      (stringifyParameters numberToString (req_parameters args))
               else executeEndpointOnPost base (req_path args) (req_parameters args)) of
           Inl r \<Rightarrow> Inl (handleError r) | Inr d \<Rightarrow> Inr d)
   \<and> ec_getEndpoints (createEngineClient numberToString base) =
        (case raw_getEndpoints base of Inl r \<Rightarrow> Inl (handleError r) | Inr d \<Rightarrow> Inr d)
   \<and> ec_getStatus (createEngineClient numberToString base) =
        (case raw_getStatus base of Inl r \<Rightarrow> Inl (handleError r) | Inr d \<Rightarrow> Inr d)
   \<and> ec_getTargetDbStatus (createEngineClient numberToString base) slug =
        (case raw_getTargetDbStatus base slug of Inl r \<Rightarrow> Inl (handleError r) | Inr d \<Rightarrow> Inr d)
   \<and> ec_executeReadonlyQuery (createEngineClient numberToString base) slug query =
        (case raw_executeReadonlyQuery base slug query of Inl r \<Rightarrow> Inl (handleError r) | Inr d \<Rightarrow> Inr d)
   \<and> ec_executeReadWriteQuery (createEngineClient numberToString base) slug query =
        (case raw_executeReadWriteQuery base slug query of Inl r \<Rightarrow> Inl (handleError r) | Inr d \<Rightarrow> Inr d)
   \<and> ec_getSchema (createEngineClient numberToString base) slug =
        (case raw_getSchema base slug of Inl r \<Rightarrow> Inl (handleError r) | Inr d \<Rightarrow> Inr d)
   \<and> ec_getTargets (createEngineClient numberToString base) =
        (case raw_getTargets base of Inl r \<Rightarrow> Inl (handleError r) | Inr d \<Rightarrow> Inr d)"
  by (auto simp: handleError_def EngineCallError_def nullish_data_def createEngineClient_def
      executeRequest_def settle_def split: option.splits json.splits)

theorem handleError_taxonomy_witness:
  "(\<exists>err. handleError (AxiosError \<lparr> config = None, response = None \<rparr> :: string rejection) = Engine err
        \<and> ece_message err = ''Error calling unknown unknown''
        \<and> ece_status err = None \<and> ece_error err = JObj [])
   \<and> handleError (NotAxios ''ENOTFOUND'') = Propagated ''ENOTFOUND''"
proof -
  note a = handleError_taxonomy[where e = "\<lparr> config = None, response = None \<rparr>", THEN conjunct1]
  note b = handleError_taxonomy[where x = "''ENOTFOUND''", THEN conjunct2, THEN conjunct1]
  from a have "\<exists>err. handleError (AxiosError \<lparr> config = None, response = None \<rparr> :: string rejection)
        = Engine err
        \<and> ece_message err = ''Error calling unknown unknown''
        \<and> ece_status err = None \<and> ece_error err = JObj []"
    by auto
  with b show ?thesis by blast
qed

text \<open>
  The claim's empty object for a body that is not structured fails: a \<open>502\<close> with the text
  body \<open>Bad Gateway\<close> gives an \<open>EngineCallError\<close> whose \<open>error\<close> is that string.
\<close>

theorem handleError_text_body:
  "handleError (AxiosError bad_gateway :: unit rejection) =
     Engine (EngineCallError ''get'' ''https://engine/status'' (Some 502)
               (Some [(''content-type'', ''text/plain'')]) (JStr ''Bad Gateway''))
   \<and> JStr ''Bad Gateway'' \<noteq> JObj []"
  by (simp add: handleError_def bad_gateway_def nullish_data_def)

text \<open>
  C7. For a built-in tool name \<open>N\<close> and a disable-list \<open>D\<close>: the registration of the
  built-in tools returns normally, and the tool (under its prefixed name) is absent from
  the registry if and only if \<open>N\<close> is in \<open>D\<close>; every other built-in tool is present with
  \<open>D\<close> exactly when it is present with \<open>N\<close> removed from \<open>D\<close>; and the same holds of the
  registry that \<open>startMcpServer\<close> ends with when it returns normally.
\<close>

theorem builtin_tool_disabled_exactly:
  assumes "N \<in> set (map tool_name builtin_tools)"
  shows "\<exists>server server'.
           registerBuiltins builtin_tools toolPrefix (Some D) [] = (Inr server :: 'x thrown + mcp_server)
         \<and> registerBuiltins builtin_tools toolPrefix (Some (removeAll N D)) []
             = (Inr server' :: 'x thrown + mcp_server)
         \<and> (prefixed toolPrefix N \<notin> set (map tool_name server) \<longleftrightarrow> N \<in> set D)
         \<and> (\<forall>M \<in> set (map tool_name builtin_tools). M \<noteq> N \<longrightarrow>
               (prefixed toolPrefix M \<in> set (map tool_name server) \<longleftrightarrow>
                prefixed toolPrefix M \<in> set (map tool_name server')))
         \<and> (\<forall>(rt :: 'x runtime) (engine :: ('n, 'x) engine_client) opts final.
               opt_toolPrefix opts = toolPrefix \<and> opt_disableTools opts = Some D
               \<and> snd (startMcpServer rt engine opts) = Inr final \<longrightarrow>
               (prefixed toolPrefix N \<notin> set (map tool_name final) \<longleftrightarrow> N \<in> set D))"
proof -
  let ?s = "enabled_builtins toolPrefix (Some D)"
  let ?s' = "enabled_builtins toolPrefix (Some (removeAll N D))"
  have 1: "prefixed toolPrefix N \<notin> set (map tool_name ?s) \<longleftrightarrow> N \<in> set D"
    using assms enabled_builtins_member[of toolPrefix N "Some D"] by (simp add: js_includes_def)
  have 2: "\<forall>M \<in> set (map tool_name builtin_tools). M \<noteq> N \<longrightarrow>
      (prefixed toolPrefix M \<in> set (map tool_name ?s) \<longleftrightarrow>
       prefixed toolPrefix M \<in> set (map tool_name ?s'))"
    unfolding enabled_builtins_member by (simp add: js_includes_def)
  have 3: "\<forall>(rt :: 'x runtime) (engine :: ('n, 'x) engine_client) opts final.
      opt_toolPrefix opts = toolPrefix \<and> opt_disableTools opts = Some D
      \<and> snd (startMcpServer rt engine opts) = Inr final \<longrightarrow>
      (prefixed toolPrefix N \<notin> set (map tool_name final) \<longleftrightarrow> N \<in> set D)"
    using startMcpServer_builtin_presence[OF _ assms] by (fastforce simp: js_includes_def)
  show ?thesis
    using 1 2 3 by (intro exI[of _ ?s] exI[of _ ?s']) (simp add: registerBuiltins_fresh)
qed

theorem builtin_tool_disabled_exactly_witness:
  "''raw_query'' \<in> set (map tool_name builtin_tools)
   \<and> (\<exists>server.
         registerBuiltins builtin_tools (Some ''db'') (Some [''raw_query'', ''query_orders'']) []
           = (Inr server :: unmodelled thrown + mcp_server)
       \<and> ''db_raw_query'' \<notin> set (map tool_name server))"
  using builtin_tool_disabled_exactly[of "''raw_query''" "Some ''db''" "[''raw_query'', ''query_orders'']",
      where ?'x = unmodelled and ?'n = rat]
  by (auto simp: builtin_names prefixed_def)

text \<open>
  C8 fails on the code for a session id that names a member of \<open>Object.prototype\<close>: with
  one live session \<open>3f2b\<close>, a message posted with \<open>sessionId=constructor\<close>, which is not a
  key of the registry, is not answered with 400; the handler calls a \<open>handlePostMessage\<close>
  that is not there and throws. An unknown id of another form is answered with 400, and
  the id of the live session reaches its transport.
\<close>

theorem post_messages_inherited_member:
  "map_of (sse_open ''3f2b'' (1::nat) []) ''constructor'' = None
   \<and> post_messages (sse_open ''3f2b'' (1::nat) []) (QueryString ''constructor'')
       = ThrewTypeError ''transport.handlePostMessage is not a function''
   \<and> post_messages (sse_open ''3f2b'' (1::nat) []) (QueryString ''0000'')
       = Responded 400 (JObj [(''messages'', JStr ''Invalid sessionId.'')])
   \<and> post_messages (sse_open ''3f2b'' (1::nat) []) (QueryString ''3f2b'') = HandlePostMessage 1"
  by (simp add: post_messages_def get_property_def sse_open_def object_prototype_members_def)

text \<open>
  C9. When \<open>startMcpServer\<close> returns normally the names of the registered tools are
  distinct. Two endpoints of the snapshot that share a path and are not disabled make the
  static registration throw: the error of a parameter that does not compile, or
  \<open>Tool ... is already registered\<close> of \<open>McpServer.tool\<close>, which the registrar does not
  catch. A built-in name never collides with the name of an endpoint's tool.
\<close>

theorem registered_tool_names_unique:
  "(snd (startMcpServer rt engine opts) = Inr server \<longrightarrow> distinct (map tool_name server))
   \<and> (\<not> opt_dynamicEndpointTools opts \<and> ec_getEndpoints engine = Inr endpoints
       \<and> i < j \<and> j < length endpoints \<and> path (endpoints ! i) = path (endpoints ! j)
       \<and> \<not> js_includes (opt_disableTools opts) (''query_'' @ path (endpoints ! i)) \<longrightarrow>
       (\<exists>e. snd (startMcpServer rt engine opts) = Inl e
           \<and> ((\<exists>ep \<in> set endpoints. parameterEntries rt ep = Inl e)
              \<or> (\<exists>n. e = Err (new_Error (Message (''Tool '' @ n @ '' is already registered'') None))))))
   \<and> (n \<in> set (map tool_name builtin_tools) \<longrightarrow>
        prefixed (opt_toolPrefix opts) n \<noteq> prefixed (opt_toolPrefix opts) (''query_'' @ x))"
proof -
  let ?p = "opt_toolPrefix opts" and ?d = "opt_disableTools opts"
  have 1: "snd (startMcpServer rt engine opts) = Inr server \<longrightarrow> distinct (map tool_name server)"
  proof (cases "opt_dynamicEndpointTools opts")
    case True
    have "prefixed ?p ''system_get_endpoints'' \<notin> set (map tool_name (enabled_builtins ?p ?d))"
         "prefixed ?p ''call_endpoint'' \<notin> set (map tool_name (enabled_builtins ?p ?d))"
      using builtin_not_dynamic[of "''system_get_endpoints''"] builtin_not_dynamic[of "''call_endpoint''"]
      unfolding enabled_builtins_member by blast+
    then show ?thesis
      using True enabled_builtins_distinct[of ?p ?d]
      by (auto simp: startMcpServer_dynamic system_get_endpoints_def call_endpoint_def prefixed_inject)
  next
    case False
    show ?thesis
    proof (cases "ec_getEndpoints engine")
      case (Inl e)
      with False show ?thesis by (simp add: startMcpServer_static)
    next
      case (Inr eps)
      show ?thesis
        using False Inr enabled_builtins_distinct[of ?p ?d]
        by (auto simp: startMcpServer_static addEndpoints_Inr_iff)
    qed
  qed
  have 2: "\<not> opt_dynamicEndpointTools opts \<and> ec_getEndpoints engine = Inr endpoints
       \<and> i < j \<and> j < length endpoints \<and> path (endpoints ! i) = path (endpoints ! j)
       \<and> \<not> js_includes ?d (''query_'' @ path (endpoints ! i)) \<longrightarrow>
       (\<exists>e. snd (startMcpServer rt engine opts) = Inl e
           \<and> ((\<exists>ep \<in> set endpoints. parameterEntries rt ep = Inl e)
              \<or> (\<exists>n. e = Err (new_Error (Message (''Tool '' @ n @ '' is already registered'') None)))))"
  proof (intro impI, elim conjE)
    assume a: "\<not> opt_dynamicEndpointTools opts" "ec_getEndpoints engine = Inr endpoints"
      "i < j" "j < length endpoints" "path (endpoints ! i) = path (endpoints ! j)"
      "\<not> js_includes ?d (''query_'' @ path (endpoints ! i))"
    let ?en = "enabled_endpoints ?d endpoints"
    have "\<not> distinct (map path ?en)"
    proof
      assume "distinct (map path ?en)"
      then have "distinct (filter (\<lambda>x. \<not> js_includes ?d (''query_'' @ x)) (map path endpoints))"
        by (simp add: enabled_endpoints_def filter_map comp_def)
      moreover have "(map path endpoints) ! i = (map path endpoints) ! j" "i < length endpoints"
        using a by simp_all
      ultimately show False
        using a(3,4,6) filter_not_distinct[of i j "map path endpoints" "\<lambda>x. \<not> js_includes ?d (''query_'' @ x)"]
        by simp
    qed
    then have "\<not> (\<exists>server. snd (startMcpServer rt engine opts) = Inr server)"
      using a(1,2) by (simp add: startMcpServer_Inr_iff)
    then obtain e where e: "snd (startMcpServer rt engine opts) = Inl e"
      by (cases "snd (startMcpServer rt engine opts)") auto
    then have "addEndpoints rt (enabled_builtins ?p ?d) endpoints ?p ?d = Inl e"
      using a(1,2) by (simp add: startMcpServer_static)
    from addEndpoints_Inl_cases[OF this] e
    show "\<exists>e. snd (startMcpServer rt engine opts) = Inl e
           \<and> ((\<exists>ep \<in> set endpoints. parameterEntries rt ep = Inl e)
              \<or> (\<exists>n. e = Err (new_Error (Message (''Tool '' @ n @ '' is already registered'') None))))"
      by blast
  qed
  have 3: "n \<in> set (map tool_name builtin_tools) \<longrightarrow>
        prefixed ?p n \<noteq> prefixed ?p (''query_'' @ x)"
    using builtin_not_query by (simp add: prefixed_inject)
  from 1 2 3 show ?thesis by blast
qed

theorem registered_tool_names_unique_witness:
  "(\<exists>server. snd (startMcpServer pkg (sample_engine sample_endpoints) (sample_options False [])) = Inr server
       \<and> distinct (map tool_name server))
   \<and> (\<exists>e. snd (startMcpServer pkg (sample_engine two_orders) (sample_options False [])) = Inl e)"
proof -
  have c: "\<forall>ep \<in> set sample_endpoints. \<exists>entries. parameterEntries pkg ep = Inr entries"
    using sample_endpoints_compile by (simp add: sample_endpoints_def)
  have en: "map path (enabled_endpoints (Some []) sample_endpoints) = [''cars'', ''orders'']"
    by (simp add: enabled_endpoints_def sample_endpoints_def js_includes_def)
  have "\<exists>server. snd (startMcpServer pkg (sample_engine sample_endpoints) (sample_options False [])) = Inr server"
    using c en startMcpServer_Inr_iff[of "sample_options False []" "sample_engine sample_endpoints"
        sample_endpoints pkg]
    by (simp add: sample_options_def sample_engine_def)
  then obtain server where
    s: "snd (startMcpServer pkg (sample_engine sample_endpoints) (sample_options False [])) = Inr server"
    by blast
  have 1: "distinct (map tool_name server)"
    using registered_tool_names_unique[of pkg "sample_engine sample_endpoints" "sample_options False []" server]
      s by blast
  note t = registered_tool_names_unique[where rt = pkg and engine = "sample_engine two_orders"
      and opts = "sample_options False []" and endpoints = two_orders and i = 0 and j = "Suc 0",
      THEN conjunct2, THEN conjunct1, rule_format]
  have pre: "\<not> opt_dynamicEndpointTools (sample_options False [])
      \<and> ec_getEndpoints (sample_engine two_orders :: (rat, unmodelled) engine_client) = Inr two_orders
      \<and> 0 < Suc 0 \<and> Suc 0 < length two_orders \<and> path (two_orders ! 0) = path (two_orders ! Suc 0)
      \<and> \<not> js_includes (opt_disableTools (sample_options False [])) (''query_'' @ path (two_orders ! 0))"
    by (simp add: sample_options_def sample_engine_def two_orders_def js_includes_def)
  have 2: "\<exists>e. snd (startMcpServer pkg (sample_engine two_orders) (sample_options False [])) = Inl e"
    using t[OF pre] by blast
  from s 1 2 show ?thesis by blast
qed

text \<open>
  C10. In \<open>addEndpoints\<close> the parameters of an endpoint are compiled before the
  disable-list is looked at: an endpoint whose name \<open>query_<path>\<close> is in the disable-list
  and that has a parameter whose schema is absent or does not compile makes
  \<open>addEndpoints\<close> throw wherever it stands in the snapshot (the error of that compilation
  when the endpoint is the first of the snapshot), and with it the whole static
  registration of \<open>startMcpServer\<close>.
\<close>

theorem disabled_endpoint_still_compiled:
  assumes "ep \<in> set endpoints"
    and "js_includes disableTools (''query_'' @ path ep)"
    and "(name, param) \<in> set (params ep)"
    and "schema param = None
         \<or> (\<exists>js. schema param = Some js
                \<and> (\<not> truthy js \<or> (\<exists>e. getZodSchemaFromJsonSchema rt js = Inl e)))"
  shows "(\<exists>e. parameterEntries rt ep = Inl e
            \<and> (\<forall>server rest. addEndpoints rt server (ep # rest) toolPrefix disableTools = Inl e))
       \<and> (\<forall>server. \<exists>e. addEndpoints rt server endpoints toolPrefix disableTools = Inl e)
       \<and> (\<forall>(engine :: ('n, 'x) engine_client) opts.
             \<not> opt_dynamicEndpointTools opts \<and> ec_getEndpoints engine = Inr endpoints
             \<and> opt_disableTools opts = disableTools \<longrightarrow>
             (\<exists>e. snd (startMcpServer rt engine opts) = Inl e))"
proof -
  have "\<exists>e. parameterEntry rt ep (name, param) = Inl e"
    using assms(4) parameterEntry_no_schema[of param rt ep name]
      parameterEntry_compile_error[of param _ rt _ ep name]
    by (metis (full_types))
  then obtain e where e: "parameterEntries rt ep = Inl e"
    using parameterEntries_fails[OF assms(3)] by blast
  then have 1: "\<forall>server rest. addEndpoints rt server (ep # rest) toolPrefix disableTools = Inl e"
    by simp
  have 2: "\<exists>e. addEndpoints rt server endpoints p d = Inl e" for server p d
    using addEndpoints_compile_error[OF assms(1) e] .
  have 3: "\<forall>(engine :: ('n, 'x) engine_client) opts.
             \<not> opt_dynamicEndpointTools opts \<and> ec_getEndpoints engine = Inr endpoints
             \<and> opt_disableTools opts = disableTools \<longrightarrow>
             (\<exists>e. snd (startMcpServer rt engine opts) = Inl e)"
    using 2 by (simp add: startMcpServer_static)
  from e 1 2 3 show ?thesis by blast
qed

theorem disabled_endpoint_still_compiled_witness:
  "js_includes (Some [''query_broken'']) (''query_'' @ path broken_endpoint)
   \<and> (\<exists>e. addEndpoints pkg [] (sample_endpoints @ [broken_endpoint]) (Some ''db'')
             (Some [''query_broken'']) = Inl e)
   \<and> (\<exists>e. snd (startMcpServer pkg (sample_engine (sample_endpoints @ [broken_endpoint]))
                  (sample_options False [''query_broken''])) = Inl e)"
proof -
  note t = disabled_endpoint_still_compiled[of broken_endpoint "sample_endpoints @ [broken_endpoint]"
      "Some [''query_broken'']" "''id''"
      "\<lparr> schema = None, optional = False, param_description = ''The id'' \<rparr>" pkg "Some ''db''",
      where ?'n = rat]
  have h: "js_includes (Some [''query_broken'']) (''query_'' @ path broken_endpoint)"
    by (simp add: js_includes_def broken_endpoint_def)
  have m: "(''id'', \<lparr> schema = None, optional = False, param_description = ''The id'' \<rparr>)
      \<in> set (params broken_endpoint)"
    by (simp add: broken_endpoint_def)
  from t[OF _ h m] have
    "(\<forall>server. \<exists>e. addEndpoints pkg server (sample_endpoints @ [broken_endpoint]) (Some ''db'')
         (Some [''query_broken'']) = Inl e)"
    "\<forall>(engine :: (rat, unmodelled) engine_client) opts.
        \<not> opt_dynamicEndpointTools opts \<and> ec_getEndpoints engine = Inr (sample_endpoints @ [broken_endpoint])
        \<and> opt_disableTools opts = Some [''query_broken''] \<longrightarrow>
        (\<exists>e. snd (startMcpServer pkg engine opts) = Inl e)"
    by simp_all
  then show ?thesis
    using h by (simp add: sample_options_def sample_engine_def)
qed

end
